theory Spec2Isabelle
  imports Main "HOL-Library.AList" "HOL-Library.Word" "HOL-Library.List_Lexorder"
    "HOL-Library.Char_ord"
begin

section \<open>Keys, port maps and errors\<close>

text \<open>
  The NEG syncer manager of the ingress controller (package \<open>neg\<close>): a registry of
  per-(service, port) syncers, the service-to-ports map, and the garbage collection of
  cloud network endpoint groups. Go maps are association lists (the manager iterates
  over them), read through \<open>map_of\<close> and written through \<open>AList.update\<close> and
  \<open>AList.delete\<close>; the list order stands for one of the iteration orders Go may choose.
  A port map given as a list may repeat a port, which a Go map cannot; what is proved
  holds for every list. Ports are \<open>int32\<close>.
\<close>

type_synonym port = "32 word"

type_synonym PortNameMap = "(port \<times> string) list"

datatype serviceKey = ServiceKey (sk_namespace: string) (sk_name: string)

datatype servicePort =
  ServicePort (sp_namespace: string) (sp_name: string) (sp_port: port) (sp_targetPort: string)

definition getSyncerKey :: "string \<Rightarrow> string \<Rightarrow> port \<Rightarrow> string \<Rightarrow> servicePort" where
  "getSyncerKey namespace name port targetPort = ServicePort namespace name port targetPort"

definition getServiceKey :: "string \<Rightarrow> string \<Rightarrow> serviceKey" where
  "getServiceKey namespace name = ServiceKey namespace name"

text \<open>
  Modelled from the spec: \<open>PortNameMap.Difference\<close> is called by \<open>EnsureSyncers\<close> but
  its body is not among the sources. The spec calls its results the removed and the
  added \<open>(port, targetPort)\<close> entries of the diff between the stored and the incoming
  map: the entries of the receiver that are not entries of the argument.
\<close>

definition Difference :: "PortNameMap \<Rightarrow> PortNameMap \<Rightarrow> PortNameMap" where
  "Difference p1 p2 = filter (\<lambda>e. e \<notin> set p2) p1"

text \<open>
  Errors as values. \<open>ErrWrap\<close> is \<open>fmt.Errorf("...: %v", err)\<close>; \<open>ErrAggregate\<close> is the
  aggregate built by \<open>utilerrors.NewAggregate\<close>, which is \<open>nil\<close> for an empty list.
\<close>

datatype error =
    ErrNotFound string string
  | ErrCloud string
  | ErrSyncerNotStopped servicePort
  | ErrWrap string error
  | ErrAggregate "error list"

definition NewAggregate :: "error list \<Rightarrow> error option" where
  "NewAggregate errList = (if errList = [] then None else Some (ErrAggregate errList))"

section \<open>The syncer\<close>

text \<open>
  Modelled from the spec: the manager only sees the interface \<open>negSyncer\<close>; the syncer's
  implementation and its backoff handler are not among the sources. The model follows
  section 4.F and 4.H of the specification and the flags the syncer's test observes:
  a new syncer answers \<open>IsStopped\<close> and not \<open>IsShuttingDown\<close>; \<open>Start\<close> requires the
  state Stopped and makes the syncer Running with an immediate sync scheduled;
  \<open>Stop\<close> on a Running syncer makes it answer both \<open>IsStopped\<close> and \<open>IsShuttingDown\<close>
  until its loop, at the next iteration boundary, ends the shutdown; \<open>Sync\<close> sets the
  dirty flag. The three states of the spec are
  Running (\<open>\<not> stopped\<close>), ShuttingDown (\<open>stopped \<and> shuttingDown\<close>) and
  Stopped (\<open>stopped \<and> \<not> shuttingDown\<close>).
\<close>

datatype phase = Halted | Syncing | Backoff | Idle

record syncer =
  syncerKey :: servicePort
  negName :: string
  stopped :: bool
  shuttingDown :: bool
  dirty :: bool
  phase :: phase
  retryCount :: nat
  syncCount :: nat
  fatalEvents :: nat

definition newSyncer :: "servicePort \<Rightarrow> string \<Rightarrow> syncer" where
  "newSyncer svcPort networkEndpointGroupName =
     \<lparr>syncerKey = svcPort, negName = networkEndpointGroupName, stopped = True,
      shuttingDown = False, dirty = False, phase = Halted, retryCount = 0,
      syncCount = 0, fatalEvents = 0\<rparr>"

definition IsStopped :: "syncer \<Rightarrow> bool" where
  "IsStopped s = stopped s"

definition IsShuttingDown :: "syncer \<Rightarrow> bool" where
  "IsShuttingDown s = shuttingDown s"

definition isRunning :: "syncer \<Rightarrow> bool" where
  "isRunning s = (\<not> stopped s \<and> \<not> shuttingDown s)"

definition Start :: "syncer \<Rightarrow> error + syncer" where
  "Start s =
     (if \<not> IsStopped s then Inl (ErrSyncerNotStopped (syncerKey s))
      else if IsShuttingDown s then Inl (ErrSyncerNotStopped (syncerKey s))
      else Inr (s\<lparr>stopped := False, phase := Syncing\<rparr>))"

definition Stop :: "syncer \<Rightarrow> syncer" where
  "Stop s = (if \<not> stopped s then s\<lparr>stopped := True, shuttingDown := True\<rparr> else s)"

definition Sync :: "syncer \<Rightarrow> syncer" where
  "Sync s = s\<lparr>dirty := True\<rparr>"

section \<open>The syncer manager\<close>

text \<open>
  \<open>syncerMap\<close> holds references to syncer objects. The objects live in the store
  \<open>syncers\<close>; a reference is an index into it, and \<open>newSyncer\<close> allocates at the end.
  The namer is the interface \<open>networkEndpointGroupNamer\<close>, a parameter of the model.
\<close>

record networkEndpointGroupNamer =
  NEG :: "string \<Rightarrow> string \<Rightarrow> port \<Rightarrow> string"
  IsNEG :: "string \<Rightarrow> bool"

record syncerManager =
  svcPortMap :: "(serviceKey \<times> PortNameMap) list"
  syncerMap :: "(servicePort \<times> nat) list"
  syncers :: "syncer list"

definition newSyncerManager :: syncerManager where
  "newSyncerManager = \<lparr>svcPortMap = [], syncerMap = [], syncers = []\<rparr>"

definition stopSyncerOf :: "string \<Rightarrow> string \<Rightarrow> port \<times> string \<Rightarrow> syncerManager \<Rightarrow> syncerManager" where
  "stopSyncerOf namespace name e manager =
     (case map_of (syncerMap manager) (getSyncerKey namespace name (fst e) (snd e)) of
        Some a \<Rightarrow> manager\<lparr>syncers := (syncers manager)[a := Stop (syncers manager ! a)]\<rparr>
      | None \<Rightarrow> manager)"

fun stopSyncers :: "string \<Rightarrow> string \<Rightarrow> PortNameMap \<Rightarrow> syncerManager \<Rightarrow> syncerManager" where
  "stopSyncers namespace name [] manager = manager"
| "stopSyncers namespace name (e # rest) manager =
     stopSyncers namespace name rest (stopSyncerOf namespace name e manager)"

text \<open>One iteration of the loop over \<open>adds\<close> in \<open>EnsureSyncers\<close>.\<close>

definition ensureSyncer ::
  "networkEndpointGroupNamer \<Rightarrow> string \<Rightarrow> string \<Rightarrow> port \<times> string \<Rightarrow>
   error list \<times> syncerManager \<Rightarrow> error list \<times> syncerManager" where
  "ensureSyncer namer namespace name e st =
     (let errList = fst st; manager = snd st;
          k = getSyncerKey namespace name (fst e) (snd e);
          a = (case map_of (syncerMap manager) k of
                 Some a \<Rightarrow> a | None \<Rightarrow> length (syncers manager));
          manager1 = (case map_of (syncerMap manager) k of
                 Some a \<Rightarrow> manager
               | None \<Rightarrow> manager
                   \<lparr>syncerMap := AList.update k (length (syncers manager)) (syncerMap manager),
                    syncers := syncers manager @
                      [newSyncer (ServicePort namespace name (fst e) (snd e))
                         (NEG namer namespace name (fst e))]\<rparr>);
          s = syncers manager1 ! a
      in if IsStopped s then
           (case Start s of
              Inl err \<Rightarrow> (errList @ [err], manager1)
            | Inr s' \<Rightarrow> (errList, manager1\<lparr>syncers := (syncers manager1)[a := s']\<rparr>))
         else (errList, manager1))"

fun ensureSyncersLoop ::
  "networkEndpointGroupNamer \<Rightarrow> string \<Rightarrow> string \<Rightarrow> PortNameMap \<Rightarrow>
   error list \<times> syncerManager \<Rightarrow> error list \<times> syncerManager" where
  "ensureSyncersLoop namer namespace name [] st = st"
| "ensureSyncersLoop namer namespace name (e # rest) st =
     ensureSyncersLoop namer namespace name rest (ensureSyncer namer namespace name e st)"

definition currentPortsOf :: "syncerManager \<Rightarrow> serviceKey \<Rightarrow> PortNameMap" where
  "currentPortsOf manager key =
     (case map_of (svcPortMap manager) key of Some ports \<Rightarrow> ports | None \<Rightarrow> [])"

definition EnsureSyncers ::
  "networkEndpointGroupNamer \<Rightarrow> syncerManager \<Rightarrow> string \<Rightarrow> string \<Rightarrow> PortNameMap \<Rightarrow>
   error option \<times> syncerManager" where
  "EnsureSyncers namer manager namespace name newPorts =
     (let key = getServiceKey namespace name;
          currentPorts = currentPortsOf manager key;
          removes = Difference currentPorts newPorts;
          adds = Difference newPorts currentPorts;
          manager1 = manager\<lparr>svcPortMap := AList.update key newPorts (svcPortMap manager)\<rparr>;
          manager2 = stopSyncers namespace name removes manager1;
          st = ensureSyncersLoop namer namespace name adds ([], manager2)
      in (NewAggregate (fst st), snd st))"

definition StopSyncer :: "syncerManager \<Rightarrow> string \<Rightarrow> string \<Rightarrow> syncerManager" where
  "StopSyncer manager namespace name =
     (let key = getServiceKey namespace name in
      case map_of (svcPortMap manager) key of
        Some ports \<Rightarrow>
          (stopSyncers namespace name ports manager)
            \<lparr>svcPortMap := AList.delete key (svcPortMap manager)\<rparr>
      | None \<Rightarrow> manager)"

definition syncSyncerOf :: "string \<Rightarrow> string \<Rightarrow> port \<times> string \<Rightarrow> syncerManager \<Rightarrow> syncerManager" where
  "syncSyncerOf namespace name e manager =
     (case map_of (syncerMap manager) (getSyncerKey namespace name (fst e) (snd e)) of
        Some a \<Rightarrow>
          (if \<not> IsStopped (syncers manager ! a)
           then manager\<lparr>syncers := (syncers manager)[a := Sync (syncers manager ! a)]\<rparr>
           else manager)
      | None \<Rightarrow> manager)"

fun syncSyncers :: "string \<Rightarrow> string \<Rightarrow> PortNameMap \<Rightarrow> syncerManager \<Rightarrow> syncerManager" where
  "syncSyncers namespace name [] manager = manager"
| "syncSyncers namespace name (e # rest) manager =
     syncSyncers namespace name rest (syncSyncerOf namespace name e manager)"

text \<open>
  \<open>syncerManager.Sync\<close> is \<open>SyncService\<close> here: \<open>Sync\<close> is the syncer's own operation.
\<close>

definition SyncService :: "syncerManager \<Rightarrow> string \<Rightarrow> string \<Rightarrow> syncerManager" where
  "SyncService manager namespace name =
     (case map_of (svcPortMap manager) (getServiceKey namespace name) of
        Some portList \<Rightarrow> syncSyncers namespace name portList manager
      | None \<Rightarrow> manager)"

fun stopAll :: "nat list \<Rightarrow> syncer list \<Rightarrow> syncer list" where
  "stopAll [] h = h"
| "stopAll (a # rest) h = stopAll rest (h[a := Stop (h ! a)])"

definition ShutDown :: "syncerManager \<Rightarrow> syncerManager" where
  "ShutDown manager = manager\<lparr>syncers := stopAll (map snd (syncerMap manager)) (syncers manager)\<rparr>"


section \<open>Garbage collection\<close>

text \<open>
  \<open>manager.syncerMap[key].IsStopped()\<close> on a key that is absent from the map is a call on
  a nil interface value, which panics: \<open>None\<close> is the panic.
\<close>

definition garbageCollectSyncer :: "syncerManager \<Rightarrow> servicePort \<Rightarrow> syncerManager option" where
  "garbageCollectSyncer manager key =
     (case map_of (syncerMap manager) key of
        None \<Rightarrow> None
      | Some a \<Rightarrow>
          Some (if IsStopped (syncers manager ! a) \<and> \<not> IsShuttingDown (syncers manager ! a)
                then manager\<lparr>syncerMap := AList.delete key (syncerMap manager)\<rparr>
                else manager))"

definition getAllStoppedSyncerKeys :: "syncerManager \<Rightarrow> servicePort list" where
  "getAllStoppedSyncerKeys manager =
     map fst (filter (\<lambda>e. IsStopped (syncers manager ! snd e)) (syncerMap manager))"

fun garbageCollectSyncers :: "servicePort list \<Rightarrow> syncerManager \<Rightarrow> syncerManager option" where
  "garbageCollectSyncers [] manager = Some manager"
| "garbageCollectSyncers (key # rest) manager =
     (case garbageCollectSyncer manager key of
        None \<Rightarrow> None
      | Some manager' \<Rightarrow> garbageCollectSyncers rest manager')"

text \<open>
  Modelled from the spec: the cloud provider behind the interface
  \<open>NetworkEndpointGroupCloud\<close> is an external collaborator. Following section 4.E, the
  cloud holds the NEG names of each zone; \<open>get\<close> and \<open>delete\<close> of a NEG that does not
  exist report the distinguished error NotFound; every call may also fail with a
  transient error, which the model injects through \<open>listFails\<close>, \<open>getFails\<close> and
  \<open>deleteFails\<close>. \<open>calls\<close> records the calls made, in order.
\<close>

datatype cloudCall =
    CallAggregatedList
  | CallGet string string
  | CallDelete string string

record cloud =
  negs :: "(string \<times> string list) list"
  listFails :: bool
  getFails :: "string \<Rightarrow> string \<Rightarrow> bool"
  deleteFails :: "string \<Rightarrow> string \<Rightarrow> bool"
  calls :: "cloudCall list"

definition negExists :: "cloud \<Rightarrow> string \<Rightarrow> string \<Rightarrow> bool" where
  "negExists c name zone = (\<exists>e \<in> set (negs c). fst e = zone \<and> name \<in> set (snd e))"

definition AggregatedListNetworkEndpointGroup ::
  "cloud \<Rightarrow> (error + (string \<times> string list) list) \<times> cloud" where
  "AggregatedListNetworkEndpointGroup c =
     (if listFails c then Inl (ErrCloud ''aggregatedList'') else Inr (negs c),
      c\<lparr>calls := calls c @ [CallAggregatedList]\<rparr>)"

definition GetNetworkEndpointGroup :: "cloud \<Rightarrow> string \<Rightarrow> string \<Rightarrow> (error + string) \<times> cloud" where
  "GetNetworkEndpointGroup c name zone =
     (if getFails c name zone then Inl (ErrCloud ''get'')
      else if negExists c name zone then Inr name
      else Inl (ErrNotFound name zone),
      c\<lparr>calls := calls c @ [CallGet name zone]\<rparr>)"

definition DeleteNetworkEndpointGroup :: "cloud \<Rightarrow> string \<Rightarrow> string \<Rightarrow> error option \<times> cloud" where
  "DeleteNetworkEndpointGroup c name zone =
     (if deleteFails c name zone
      then (Some (ErrCloud ''delete''), c\<lparr>calls := calls c @ [CallDelete name zone]\<rparr>)
      else if negExists c name zone
      then (None, c\<lparr>negs := map (\<lambda>e. if fst e = zone then (fst e, removeAll name (snd e)) else e)
                              (negs c),
                    calls := calls c @ [CallDelete name zone]\<rparr>)
      else (Some (ErrNotFound name zone), c\<lparr>calls := calls c @ [CallDelete name zone]\<rparr>))"

definition ensureDeleteNetworkEndpointGroup ::
  "cloud \<Rightarrow> string \<Rightarrow> string \<Rightarrow> error option \<times> cloud" where
  "ensureDeleteNetworkEndpointGroup c name zone =
     (case GetNetworkEndpointGroup c name zone of
        (Inl err, c') \<Rightarrow> (None, c')
      | (Inr neg, c') \<Rightarrow> DeleteNetworkEndpointGroup c' name zone)"

text \<open>
  \<open>quoted\<close> is the verb \<open>%q\<close> of \<open>fmt.Errorf\<close> for a string with no character that needs
  an escape, as NEG names and zone names are: the string between double quotes.
\<close>

definition quoted :: "string \<Rightarrow> string" where
  "quoted s = CHR 0x22 # s @ [CHR 0x22]"

fun deleteNames :: "string \<Rightarrow> string list \<Rightarrow> cloud \<Rightarrow> error option \<times> cloud" where
  "deleteNames zone [] c = (None, c)"
| "deleteNames zone (name # rest) c =
     (case ensureDeleteNetworkEndpointGroup c name zone of
        (Some err, c') \<Rightarrow>
          (Some (ErrWrap (''failed to delete NEG '' @ quoted name @ '' in '' @ quoted zone) err), c')
      | (None, c') \<Rightarrow> deleteNames zone rest c')"

fun deleteZones :: "string list \<Rightarrow> string list \<Rightarrow> cloud \<Rightarrow> error option \<times> cloud" where
  "deleteZones [] names c = (None, c)"
| "deleteZones (zone # rest) names c =
     (case deleteNames zone names c of
        (Some err, c') \<Rightarrow> (Some err, c')
      | (None, c') \<Rightarrow> deleteZones rest names c')"

text \<open>The names the service-port map declares: one per service and service port.\<close>

definition liveNames :: "networkEndpointGroupNamer \<Rightarrow> syncerManager \<Rightarrow> string list" where
  "liveNames namer manager =
     concat (map (\<lambda>kp. map (\<lambda>e. NEG namer (sk_namespace (fst kp)) (sk_name (fst kp)) (fst e))
                           (snd kp))
                 (svcPortMap manager))"

text \<open>
  \<open>negNames\<close> is a \<open>sets.String\<close>: the names of the listing recognised by the namer,
  less the live names; \<open>List()\<close> returns its members sorted.
\<close>

definition orphanNames ::
  "networkEndpointGroupNamer \<Rightarrow> syncerManager \<Rightarrow> (string \<times> string list) list \<Rightarrow> string list" where
  "orphanNames namer manager zoneNEGList =
     sort (remdups (filter (\<lambda>n. n \<notin> set (liveNames namer manager))
                           (filter (IsNEG namer) (concat (map snd zoneNEGList)))))"

definition garbageCollectNEG ::
  "networkEndpointGroupNamer \<Rightarrow> syncerManager \<Rightarrow> cloud \<Rightarrow> error option \<times> cloud" where
  "garbageCollectNEG namer manager c =
     (case AggregatedListNetworkEndpointGroup c of
        (Inl err, c') \<Rightarrow> (Some (ErrWrap ''failed to retrieve aggregated NEG list'' err), c')
      | (Inr zoneNEGList, c') \<Rightarrow>
          deleteZones (map fst zoneNEGList) (orphanNames namer manager zoneNEGList) c')"

definition GC ::
  "networkEndpointGroupNamer \<Rightarrow> syncerManager \<Rightarrow> cloud \<Rightarrow>
   (error option \<times> syncerManager \<times> cloud) option" where
  "GC namer manager c =
     (case garbageCollectSyncers (getAllStoppedSyncerKeys manager) manager of
        None \<Rightarrow> None
      | Some manager' \<Rightarrow>
          (case garbageCollectNEG namer manager' c of
             (Some err, c') \<Rightarrow> Some (Some (ErrWrap ''Failed to garbage collect negs'' err), manager', c')
           | (None, c') \<Rightarrow> Some (None, manager', c')))"

section \<open>The syncer's loop and its backoff\<close>

text \<open>
  Modelled from the spec: the syncer's loop and the backoff handler are not among the
  sources (only their test is). One step of the loop, after sections 4.F and 4.H: at an
  iteration boundary a shutting-down syncer ends its loop and becomes Stopped; an idle
  loop blocks until \<open>dirty\<close> is set, clears it and runs; a reconciliation counts one
  attempt; a failure counts one retry, and the loop waits for the retry delay unless
  \<open>maxRetries\<close> is exceeded, in which case a fatal event is recorded and the loop
  blocks until the next poke; a success resets the retry counter. \<open>syncFails i\<close> tells
  whether the attempt made after \<open>i\<close> earlier attempts fails. The delays themselves
  (\<open>min(cap, base * 2^attempt)\<close>) are real time and are left out.
\<close>

definition loopStep :: "nat \<Rightarrow> (nat \<Rightarrow> bool) \<Rightarrow> syncer \<Rightarrow> syncer" where
  "loopStep maxRetries syncFails s =
     (case phase s of
        Halted \<Rightarrow> s
      | Idle \<Rightarrow>
          if shuttingDown s then s\<lparr>shuttingDown := False, phase := Halted\<rparr>
          else if dirty s then s\<lparr>dirty := False, phase := Syncing\<rparr>
          else s
      | Backoff \<Rightarrow>
          if shuttingDown s then s\<lparr>shuttingDown := False, phase := Halted\<rparr>
          else s\<lparr>phase := Syncing\<rparr>
      | Syncing \<Rightarrow>
          if shuttingDown s then s\<lparr>shuttingDown := False, phase := Halted\<rparr>
          else if syncFails (syncCount s) then
            (if maxRetries < retryCount s + 1
             then s\<lparr>phase := Idle, retryCount := retryCount s + 1,
                    syncCount := syncCount s + 1, fatalEvents := fatalEvents s + 1\<rparr>
             else s\<lparr>phase := Backoff, retryCount := retryCount s + 1,
                    syncCount := syncCount s + 1\<rparr>)
          else s\<lparr>phase := Idle, retryCount := 0, syncCount := syncCount s + 1\<rparr>)"

fun runLoop :: "nat \<Rightarrow> (nat \<Rightarrow> bool) \<Rightarrow> nat \<Rightarrow> syncer \<Rightarrow> syncer" where
  "runLoop maxRetries syncFails 0 s = s"
| "runLoop maxRetries syncFails (Suc n) s =
     runLoop maxRetries syncFails n (loopStep maxRetries syncFails s)"

section \<open>The application-protocol annotation\<close>

text \<open>
  Modelled from the spec: \<open>ApplicationProtocols\<close> of package \<open>annotations\<close> is not
  among the sources (only its test is). After section 4.A: the annotation is a JSON
  object from port to protocol, under the user-owned key or, as a fallback, under the
  vendor-prefixed key; a service with neither has the empty map; a value that does not
  decode is invalid; the accepted protocols are HTTP, HTTPS and HTTP2, and HTTP2 is
  rejected with UnsupportedProtocol unless the HTTP/2 feature flag is on. The JSON
  decoding itself is the library's: an annotation value is given as its decoded
  entries, or as \<open>Malformed\<close>.
\<close>

datatype annotationValue = Malformed | PortProtocols "(string \<times> string) list"

datatype annotationError = AnnotationInvalid | UnsupportedProtocol

record Service =
  ServiceApplicationProtocol :: "annotationValue option"
  GoogleServiceApplicationProtocol :: "annotationValue option"

fun verifyProtocols :: "bool \<Rightarrow> (string \<times> string) list \<Rightarrow> annotationError option" where
  "verifyProtocols http2 [] = None"
| "verifyProtocols http2 (e # rest) =
     (if snd e = ''HTTP'' \<or> snd e = ''HTTPS'' then verifyProtocols http2 rest
      else if snd e = ''HTTP2''
      then (if http2 then verifyProtocols http2 rest else Some UnsupportedProtocol)
      else Some AnnotationInvalid)"

definition appProtocolsAnnotation :: "Service \<Rightarrow> annotationValue option" where
  "appProtocolsAnnotation svc =
     (case ServiceApplicationProtocol svc of
        Some v \<Rightarrow> Some v
      | None \<Rightarrow> GoogleServiceApplicationProtocol svc)"

definition ApplicationProtocols ::
  "bool \<Rightarrow> Service \<Rightarrow> annotationError + (string \<times> string) list" where
  "ApplicationProtocols http2 svc =
     (case appProtocolsAnnotation svc of
        None \<Rightarrow> Inr []
      | Some Malformed \<Rightarrow> Inl AnnotationInvalid
      | Some (PortProtocols portToProtos) \<Rightarrow>
          (case verifyProtocols http2 portToProtos of
             Some err \<Rightarrow> Inl err
           | None \<Rightarrow> Inr portToProtos))"

section \<open>Views of the registry\<close>

text \<open>
  The key of the syncer of a port-map entry, the syncer object registered under a key,
  and the invariant of the registry: keys are unique, every reference points into the
  store at an object that carries the key it is registered under (so no two keys share
  an object), and a syncer that is shutting down answers \<open>IsStopped\<close>.
  \<open>startOrKeep\<close> and \<open>startError\<close> are the two results of the guarded
  \<open>if syncer.IsStopped() { syncer.Start() }\<close>; \<open>syncerOrNew\<close> is the object that guard
  runs on: the registered one, or a new one.
\<close>

definition syncerKeyOf :: "string \<Rightarrow> string \<Rightarrow> port \<times> string \<Rightarrow> servicePort" where
  "syncerKeyOf namespace name e = getSyncerKey namespace name (fst e) (snd e)"

definition lookupSyncer :: "syncerManager \<Rightarrow> servicePort \<Rightarrow> syncer option" where
  "lookupSyncer manager k = map_option (\<lambda>a. syncers manager ! a) (map_of (syncerMap manager) k)"

definition runningAt :: "syncerManager \<Rightarrow> servicePort \<Rightarrow> bool" where
  "runningAt manager k = (case lookupSyncer manager k of Some s \<Rightarrow> isRunning s | None \<Rightarrow> False)"

definition wellFormed :: "syncerManager \<Rightarrow> bool" where
  "wellFormed manager =
     (distinct (map fst (svcPortMap manager)) \<and>
      distinct (map fst (syncerMap manager)) \<and>
      (\<forall>e \<in> set (syncerMap manager).
         snd e < length (syncers manager) \<and> syncerKey (syncers manager ! snd e) = fst e) \<and>
      (\<forall>s \<in> set (syncers manager). shuttingDown s \<longrightarrow> stopped s))"

definition startOrKeep :: "syncer \<Rightarrow> syncer" where
  "startOrKeep s = (if IsStopped s then (case Start s of Inl err \<Rightarrow> s | Inr s' \<Rightarrow> s') else s)"

definition startError :: "syncer \<Rightarrow> error option" where
  "startError s = (if IsStopped s then (case Start s of Inl err \<Rightarrow> Some err | Inr s' \<Rightarrow> None) else None)"

definition syncerOrNew :: "networkEndpointGroupNamer \<Rightarrow> syncerManager \<Rightarrow> servicePort \<Rightarrow> syncer" where
  "syncerOrNew namer manager k =
     (case lookupSyncer manager k of
        Some s \<Rightarrow> s
      | None \<Rightarrow> newSyncer k (NEG namer (sp_namespace k) (sp_name k) (sp_port k)))"

text \<open>
  The registries the manager can be in: the new one, and whatever its operations, the
  collection of stopped syncers and the steps of the syncers' own loops make of it.
\<close>

inductive reachable :: "syncerManager \<Rightarrow> bool" where
  reachable_new: "reachable newSyncerManager"
| reachable_EnsureSyncers:
    "reachable manager \<Longrightarrow> reachable (snd (EnsureSyncers namer manager namespace name newPorts))"
| reachable_StopSyncer: "reachable manager \<Longrightarrow> reachable (StopSyncer manager namespace name)"
| reachable_Sync: "reachable manager \<Longrightarrow> reachable (SyncService manager namespace name)"
| reachable_ShutDown: "reachable manager \<Longrightarrow> reachable (ShutDown manager)"
| reachable_GC:
    "reachable manager \<Longrightarrow>
     garbageCollectSyncers (getAllStoppedSyncerKeys manager) manager = Some manager' \<Longrightarrow>
     reachable manager'"
| reachable_loopStep:
    "reachable manager \<Longrightarrow> a < length (syncers manager) \<Longrightarrow>
     reachable (manager\<lparr>syncers :=
        (syncers manager)[a := loopStep maxRetries syncFails (syncers manager ! a)]\<rparr>)"

section \<open>Example registries\<close>

text \<open>
  A namer and the registries a short run of the manager builds: service \<open>default/foo\<close>
  with ports 80 and 443; the same service after port 80 was added and then removed, its
  syncer still shutting down; and two services side by side.
\<close>

definition exampleNamer :: networkEndpointGroupNamer where
  "exampleNamer =
     \<lparr>NEG = (\<lambda>namespace name port. ''k8s1-'' @ namespace @ ''-'' @ name @ ''-'' @
               (if port = 80 then ''80'' else if port = 443 then ''443'' else ''other'')),
      IsNEG = (\<lambda>name. take 5 name = ''k8s1-'')\<rparr>"

definition managerFoo :: syncerManager where
  "managerFoo =
     snd (EnsureSyncers exampleNamer newSyncerManager ''default'' ''foo''
            [(80, ''http''), (443, ''https'')])"

definition managerShuttingDown :: syncerManager where
  "managerShuttingDown =
     snd (EnsureSyncers exampleNamer
            (snd (EnsureSyncers exampleNamer newSyncerManager ''default'' ''foo'' [(80, ''http'')]))
            ''default'' ''foo'' [])"

definition managerTwo :: syncerManager where
  "managerTwo = snd (EnsureSyncers exampleNamer managerFoo ''default'' ''bar'' [(80, ''http'')])"

text \<open>
  Clouds for the examples: one that answers every call; the same with a transient
  failure of the \<open>get\<close> of one orphan; one with three orphans in three zones where the
  \<open>delete\<close> of one orphan fails in the second zone; and one whose every \<open>delete\<close> fails,
  holding two orphans.
\<close>

definition exampleCloud :: cloud where
  "exampleCloud =
     \<lparr>negs = [(''us-a'', [''k8s1-default-foo-80'', ''k8s1-default-old-80'', ''other'']),
              (''us-b'', [''k8s1-default-old-80''])],
      listFails = False, getFails = (\<lambda>name zone. False),
      deleteFails = (\<lambda>name zone. False), calls = []\<rparr>"

definition cloudGetFails :: cloud where
  "cloudGetFails =
     exampleCloud\<lparr>getFails := (\<lambda>name zone. name = ''k8s1-default-old-80'' \<and> zone = ''us-a'')\<rparr>"

definition cloudOneDeleteFails :: cloud where
  "cloudOneDeleteFails =
     \<lparr>negs = [(''us-a'', [''k8s1-default-old-8080'', ''k8s1-default-foo-80'', ''k8s1-default-old-80'',
                        ''k8s1-default-old-443'']),
              (''us-b'', [''k8s1-default-old-80'', ''k8s1-default-old-443'', ''k8s1-default-old-8080'']),
              (''us-c'', [''k8s1-default-old-80''])],
      listFails = False, getFails = (\<lambda>name zone. False),
      deleteFails = (\<lambda>name zone. name = ''k8s1-default-old-80'' \<and> zone = ''us-b''), calls = []\<rparr>"

definition cloudDeleteFails :: cloud where
  "cloudDeleteFails =
     \<lparr>negs = [(''us-a'', [''k8s1-default-old-80'', ''k8s1-default-old-443''])],
      listFails = False, getFails = (\<lambda>name zone. False),
      deleteFails = (\<lambda>name zone. True), calls = []\<rparr>"

text \<open>
  The syncer of the syncer test right after \<open>Start\<close>, and two services: one whose
  annotation is \<open>{"443": "HTTP2"}\<close>, one whose annotation also maps a port to a value
  that is no protocol.
\<close>

definition startedSyncer :: syncer where
  "startedSyncer =
     (case Start (newSyncer (ServicePort ''default'' ''foo'' 80 ''80'') ''test-neg-name'') of
        Inr s \<Rightarrow> s
      | Inl err \<Rightarrow> newSyncer (ServicePort ''default'' ''foo'' 80 ''80'') ''test-neg-name'')"

definition http2Service :: Service where
  "http2Service =
     \<lparr>ServiceApplicationProtocol = Some (PortProtocols [(''443'', ''HTTP2'')]),
      GoogleServiceApplicationProtocol = None\<rparr>"

definition mixedService :: Service where
  "mixedService =
     \<lparr>ServiceApplicationProtocol = Some (PortProtocols [(''22'', ''SSH''), (''443'', ''HTTP2'')]),
      GoogleServiceApplicationProtocol = None\<rparr>"

section \<open>The registry invariant and the effect of the operations\<close>

lemma ball_alist_map_of:
  "distinct (map fst al) \<Longrightarrow>
     (\<forall>e \<in> set al. P (fst e) (snd e)) \<longleftrightarrow> (\<forall>k a. map_of al k = Some a \<longrightarrow> P k a)"
  by (metis map_of_eq_Some_iff prod.collapse fst_conv snd_conv)

lemma wellFormed_map_of:
  "wellFormed m \<longleftrightarrow>
     distinct (map fst (svcPortMap m)) \<and> distinct (map fst (syncerMap m)) \<and>
     (\<forall>k a. map_of (syncerMap m) k = Some a \<longrightarrow>
        a < length (syncers m) \<and> syncerKey (syncers m ! a) = k) \<and>
     (\<forall>a < length (syncers m). shuttingDown (syncers m ! a) \<longrightarrow> stopped (syncers m ! a))"
proof -
  have "(\<forall>s \<in> set (syncers m). shuttingDown s \<longrightarrow> stopped s) \<longleftrightarrow>
        (\<forall>a < length (syncers m). shuttingDown (syncers m ! a) \<longrightarrow> stopped (syncers m ! a))"
    by (simp add: all_set_conv_all_nth)
  moreover have "distinct (map fst (syncerMap m)) \<Longrightarrow>
     (\<forall>e \<in> set (syncerMap m).
         snd e < length (syncers m) \<and> syncerKey (syncers m ! snd e) = fst e) \<longleftrightarrow>
     (\<forall>k a. map_of (syncerMap m) k = Some a \<longrightarrow>
        a < length (syncers m) \<and> syncerKey (syncers m ! a) = k)"
    by (rule ball_alist_map_of)
  ultimately show ?thesis
    unfolding wellFormed_def by blast
qed

lemma wellFormed_addr:
  "wellFormed m \<Longrightarrow> map_of (syncerMap m) k = Some a \<Longrightarrow>
     a < length (syncers m) \<and> syncerKey (syncers m ! a) = k"
  by (simp add: wellFormed_map_of)

lemma wellFormed_inj:
  "wellFormed m \<Longrightarrow> map_of (syncerMap m) k = Some a \<Longrightarrow> map_of (syncerMap m) k' = Some a \<Longrightarrow> k = k'"
  using wellFormed_addr by blast

lemma Stop_Stop [simp]: "Stop (Stop s) = Stop s"
  by (simp add: Stop_def)

lemma syncerKey_Stop [simp]: "syncerKey (Stop s) = syncerKey s"
  by (simp add: Stop_def)

lemma Stop_flags: "shuttingDown s \<longrightarrow> stopped s \<Longrightarrow> shuttingDown (Stop s) \<longrightarrow> stopped (Stop s)"
  by (simp add: Stop_def)

lemma stopped_Stop [simp]: "stopped (Stop s)"
  by (simp add: Stop_def)

lemma stopSyncerOf_maps [simp]:
  "svcPortMap (stopSyncerOf ns n e m) = svcPortMap m"
  "syncerMap (stopSyncerOf ns n e m) = syncerMap m"
  "length (syncers (stopSyncerOf ns n e m)) = length (syncers m)"
  by (simp_all add: stopSyncerOf_def split: option.splits)

lemma stopSyncerOf_wellFormed:
  "wellFormed m \<Longrightarrow> wellFormed (stopSyncerOf ns n e m)"
  unfolding wellFormed_map_of
  by (auto simp: stopSyncerOf_def nth_list_update Stop_def split: option.splits)

lemma stopSyncerOf_lookup:
  assumes "wellFormed m"
  shows "lookupSyncer (stopSyncerOf ns n e m) k =
           (if k = syncerKeyOf ns n e then map_option Stop (lookupSyncer m k) else lookupSyncer m k)"
proof (cases "map_of (syncerMap m) (syncerKeyOf ns n e)")
  case None
  then show ?thesis
    by (simp add: lookupSyncer_def stopSyncerOf_def syncerKeyOf_def)
next
  case (Some a)
  have a: "a < length (syncers m)" using wellFormed_addr [OF assms Some] by simp
  show ?thesis
  proof (cases "k = syncerKeyOf ns n e")
    case True
    with Some a show ?thesis
      by (simp add: lookupSyncer_def stopSyncerOf_def syncerKeyOf_def)
  next
    case False
    have "b \<noteq> a" if "map_of (syncerMap m) k = Some b" for b
      using wellFormed_inj [OF assms that] Some False by auto
    with Some False show ?thesis
      by (cases "map_of (syncerMap m) k")
         (simp_all add: lookupSyncer_def stopSyncerOf_def syncerKeyOf_def)
  qed
qed

lemma stopSyncers_maps [simp]:
  "svcPortMap (stopSyncers ns n es m) = svcPortMap m"
  "syncerMap (stopSyncers ns n es m) = syncerMap m"
  "length (syncers (stopSyncers ns n es m)) = length (syncers m)"
  by (induction es arbitrary: m; simp)+

lemma stopSyncers_wellFormed:
  "wellFormed m \<Longrightarrow> wellFormed (stopSyncers ns n es m)"
  by (induction es arbitrary: m) (simp_all add: stopSyncerOf_wellFormed)

lemma stopSyncers_lookup:
  "wellFormed m \<Longrightarrow>
   lookupSyncer (stopSyncers ns n es m) k =
     (if k \<in> syncerKeyOf ns n ` set es then map_option Stop (lookupSyncer m k)
      else lookupSyncer m k)"
proof (induction es arbitrary: m)
  case Nil
  then show ?case by simp
next
  case (Cons e es)
  show ?case
    using Cons.IH [OF stopSyncerOf_wellFormed [OF Cons.prems], of ns n e]
    by (cases "lookupSyncer m k")
       (auto simp: stopSyncerOf_lookup [OF Cons.prems])
qed

lemma startOrKeep_idem [simp]: "startOrKeep (startOrKeep s) = startOrKeep s"
  by (simp add: startOrKeep_def Start_def IsStopped_def IsShuttingDown_def)

lemma startError_startOrKeep [simp]: "startError (startOrKeep s) = startError s"
  by (simp add: startOrKeep_def startError_def Start_def IsStopped_def IsShuttingDown_def)

lemma syncerKey_startOrKeep [simp]: "syncerKey (startOrKeep s) = syncerKey s"
  by (simp add: startOrKeep_def Start_def IsStopped_def IsShuttingDown_def)

lemma startOrKeep_flags:
  "shuttingDown s \<longrightarrow> stopped s \<Longrightarrow> shuttingDown (startOrKeep s) \<longrightarrow> stopped (startOrKeep s)"
  by (simp add: startOrKeep_def Start_def IsStopped_def IsShuttingDown_def)

lemma ensureSyncer_eq:
  "ensureSyncer namer ns n e (errs, m) =
     (let k = syncerKeyOf ns n e;
          a = (case map_of (syncerMap m) k of Some a \<Rightarrow> a | None \<Rightarrow> length (syncers m));
          m1 = (case map_of (syncerMap m) k of
                  Some a \<Rightarrow> m
                | None \<Rightarrow> m\<lparr>syncerMap := AList.update k (length (syncers m)) (syncerMap m),
                            syncers := syncers m @ [newSyncer k (NEG namer ns n (fst e))]\<rparr>)
      in (errs @ (case startError (syncers m1 ! a) of Some err \<Rightarrow> [err] | None \<Rightarrow> []),
          m1\<lparr>syncers := (syncers m1)[a := startOrKeep (syncers m1 ! a)]\<rparr>))"
  by (simp add: ensureSyncer_def Let_def syncerKeyOf_def getSyncerKey_def startError_def
      startOrKeep_def split: sum.splits option.splits)

lemma ensureSyncer_existing:
  assumes "map_of (syncerMap m) (syncerKeyOf ns n e) = Some a"
  shows "ensureSyncer namer ns n e (errs, m) =
     (errs @ (case startError (syncers m ! a) of Some err \<Rightarrow> [err] | None \<Rightarrow> []),
      m\<lparr>syncers := (syncers m)[a := startOrKeep (syncers m ! a)]\<rparr>)"
  using assms by (simp add: ensureSyncer_eq)

lemma ensureSyncer_fresh:
  assumes "map_of (syncerMap m) (syncerKeyOf ns n e) = None"
  shows "ensureSyncer namer ns n e (errs, m) =
     (errs @ (case startError (newSyncer (syncerKeyOf ns n e) (NEG namer ns n (fst e))) of
                Some err \<Rightarrow> [err] | None \<Rightarrow> []),
      m\<lparr>syncerMap := AList.update (syncerKeyOf ns n e) (length (syncers m)) (syncerMap m),
        syncers := syncers m @
          [startOrKeep (newSyncer (syncerKeyOf ns n e) (NEG namer ns n (fst e)))]\<rparr>)"
  using assms by (simp add: ensureSyncer_eq Let_def)

lemma syncerKeyOf_sel [simp]:
  "sp_namespace (syncerKeyOf ns n e) = ns" "sp_name (syncerKeyOf ns n e) = n"
  "sp_port (syncerKeyOf ns n e) = fst e" "sp_targetPort (syncerKeyOf ns n e) = snd e"
  by (simp_all add: syncerKeyOf_def getSyncerKey_def)

lemma ensureSyncer_svcPortMap [simp]:
  "svcPortMap (snd (ensureSyncer namer ns n e (errs, m))) = svcPortMap m"
  by (simp add: ensureSyncer_eq Let_def split: option.splits)

lemma wellFormed_store_update:
  assumes "wellFormed m" and "syncerKey s' = syncerKey (syncers m ! a)"
    and "shuttingDown s' \<longrightarrow> stopped s'"
  shows "wellFormed (m\<lparr>syncers := (syncers m)[a := s']\<rparr>)"
proof -
  have "b < length (syncers m) \<and> syncerKey ((syncers m)[a := s'] ! b) = k"
    if "map_of (syncerMap m) k = Some b" for k b
    using wellFormed_addr [OF assms(1) that] assms(2)
    by (cases "b = a") simp_all
  moreover have "shuttingDown ((syncers m)[a := s'] ! b) \<longrightarrow> stopped ((syncers m)[a := s'] ! b)"
    if "b < length (syncers m)" for b
    using assms(1,3) that by (cases "b = a") (simp_all add: wellFormed_map_of)
  ultimately show ?thesis
    using assms(1) by (simp add: wellFormed_map_of)
qed

lemma newSyncer_sel [simp]:
  "syncerKey (newSyncer k nn) = k" "stopped (newSyncer k nn)" "\<not> shuttingDown (newSyncer k nn)"
  by (simp_all add: newSyncer_def)

lemma ensureSyncer_wellFormed:
  assumes "wellFormed m"
  shows "wellFormed (snd (ensureSyncer namer ns n e (errs, m)))"
proof (cases "map_of (syncerMap m) (syncerKeyOf ns n e)")
  case None
  let ?k = "syncerKeyOf ns n e"
  let ?s = "startOrKeep (newSyncer ?k (NEG namer ns n (fst e)))"
  have flags: "shuttingDown ?s \<longrightarrow> stopped ?s"
    by (rule startOrKeep_flags) simp
  have old: "a < length (syncers m) \<and> syncerKey (syncers m ! a) = k"
    if "map_of (syncerMap m) k = Some a" for k a
    using wellFormed_addr [OF assms that] .
  have sd: "shuttingDown (syncers m ! a) \<longrightarrow> stopped (syncers m ! a)"
    if "a < length (syncers m)" for a
    using assms that by (simp add: wellFormed_map_of)
  from assms have d: "distinct (map fst (svcPortMap m))" "distinct (map fst (syncerMap m))"
    by (simp_all add: wellFormed_def)
  show ?thesis
    unfolding ensureSyncer_fresh [OF None] wellFormed_map_of
    using d flags old sd
    by (auto simp: update_conv' distinct_update nth_append less_Suc_eq
             simp del: map_of_eq_Some_iff)
next
  case (Some a)
  have "a < length (syncers m)" using wellFormed_addr [OF assms Some] by simp
  then have "shuttingDown (syncers m ! a) \<longrightarrow> stopped (syncers m ! a)"
    using assms by (simp add: wellFormed_map_of)
  then show ?thesis
    unfolding ensureSyncer_existing [OF Some]
    by (simp add: wellFormed_store_update [OF assms] startOrKeep_flags)
qed

lemma ensureSyncer_syncerMap:
  "map_of (syncerMap (snd (ensureSyncer namer ns n e (errs, m)))) k =
     (if k = syncerKeyOf ns n e \<and> map_of (syncerMap m) k = None
      then Some (length (syncers m)) else map_of (syncerMap m) k)"
  by (cases "map_of (syncerMap m) (syncerKeyOf ns n e)")
     (auto simp: ensureSyncer_fresh ensureSyncer_existing update_conv')

lemma ensureSyncer_length:
  "length (syncers (snd (ensureSyncer namer ns n e (errs, m)))) =
     (if map_of (syncerMap m) (syncerKeyOf ns n e) = None
      then Suc (length (syncers m)) else length (syncers m))"
  by (cases "map_of (syncerMap m) (syncerKeyOf ns n e)")
     (auto simp: ensureSyncer_fresh ensureSyncer_existing)

lemma ensureSyncer_lookup:
  assumes "wellFormed m"
  shows "lookupSyncer (snd (ensureSyncer namer ns n e (errs, m))) k =
     (if k = syncerKeyOf ns n e then Some (startOrKeep (syncerOrNew namer m k))
      else lookupSyncer m k)"
proof (cases "map_of (syncerMap m) (syncerKeyOf ns n e)")
  case None
  have "b < length (syncers m)" if "map_of (syncerMap m) k = Some b" for b
    using wellFormed_addr [OF assms that] by simp
  with None show ?thesis
    unfolding ensureSyncer_fresh [OF None]
    by (cases "map_of (syncerMap m) k")
       (auto simp: lookupSyncer_def syncerOrNew_def update_conv' nth_append)
next
  case (Some a)
  have a: "a < length (syncers m)" using wellFormed_addr [OF assms Some] by simp
  have "b \<noteq> a" if "map_of (syncerMap m) k = Some b" "k \<noteq> syncerKeyOf ns n e" for b
    using wellFormed_inj [OF assms that(1)] Some that(2) by auto
  with Some a show ?thesis
    unfolding ensureSyncer_existing [OF Some]
    by (cases "map_of (syncerMap m) k")
       (auto simp: lookupSyncer_def syncerOrNew_def)
qed

lemma ensureSyncer_errors:
  assumes "wellFormed m"
  shows "fst (ensureSyncer namer ns n e (errs, m)) =
     errs @ (case startError (syncerOrNew namer m (syncerKeyOf ns n e)) of
               Some err \<Rightarrow> [err] | None \<Rightarrow> [])"
proof (cases "map_of (syncerMap m) (syncerKeyOf ns n e)")
  case None
  then show ?thesis
    unfolding ensureSyncer_fresh [OF None]
    by (simp add: syncerOrNew_def lookupSyncer_def)
next
  case (Some a)
  then show ?thesis
    unfolding ensureSyncer_existing [OF Some]
    by (simp add: syncerOrNew_def lookupSyncer_def)
qed

lemma ensureSyncer_stable:
  assumes "wellFormed m"
  shows "startOrKeep (syncerOrNew namer (snd (ensureSyncer namer ns n e (errs, m))) k) =
           startOrKeep (syncerOrNew namer m k)"
    and "startError (syncerOrNew namer (snd (ensureSyncer namer ns n e (errs, m))) k) =
           startError (syncerOrNew namer m k)"
  by (simp_all add: syncerOrNew_def [of namer "snd _"] ensureSyncer_lookup [OF assms])
     (simp_all add: syncerOrNew_def)

lemma ensureSyncersLoop_svcPortMap [simp]:
  "svcPortMap (snd (ensureSyncersLoop namer ns n es (errs, m))) = svcPortMap m"
proof (induction es arbitrary: errs m)
  case Nil
  show ?case by simp
next
  case (Cons e es)
  show ?case
    using Cons.IH [of "fst (ensureSyncer namer ns n e (errs, m))"
        "snd (ensureSyncer namer ns n e (errs, m))"]
    by simp
qed

lemma ensureSyncersLoop_wellFormed:
  "wellFormed m \<Longrightarrow> wellFormed (snd (ensureSyncersLoop namer ns n es (errs, m)))"
proof (induction es arbitrary: errs m)
  case Nil
  then show ?case by simp
next
  case (Cons e es)
  let ?st = "ensureSyncer namer ns n e (errs, m)"
  have wf': "wellFormed (snd ?st)" by (rule ensureSyncer_wellFormed [OF Cons.prems])
  have "wellFormed (snd (ensureSyncersLoop namer ns n es (fst ?st, snd ?st)))"
    by (rule Cons.IH [OF wf'])
  then show ?case by simp
qed

lemma ensureSyncersLoop_lookup:
  "wellFormed m \<Longrightarrow>
   lookupSyncer (snd (ensureSyncersLoop namer ns n es (errs, m))) k =
     (if k \<in> syncerKeyOf ns n ` set es then Some (startOrKeep (syncerOrNew namer m k))
      else lookupSyncer m k)"
proof (induction es arbitrary: errs m)
  case Nil
  then show ?case by simp
next
  case (Cons e es)
  let ?st = "ensureSyncer namer ns n e (errs, m)"
  have wf': "wellFormed (snd ?st)" by (rule ensureSyncer_wellFormed [OF Cons.prems])
  have "lookupSyncer (snd (ensureSyncersLoop namer ns n es (fst ?st, snd ?st))) k =
     (if k \<in> syncerKeyOf ns n ` set es then Some (startOrKeep (syncerOrNew namer (snd ?st) k))
      else lookupSyncer (snd ?st) k)"
    by (rule Cons.IH [OF wf'])
  then show ?case
    by (simp add: ensureSyncer_stable [OF Cons.prems] ensureSyncer_lookup [OF Cons.prems])
qed

lemma ensureSyncersLoop_errors:
  "wellFormed m \<Longrightarrow>
   fst (ensureSyncersLoop namer ns n es (errs, m)) =
     errs @ List.map_filter (\<lambda>e. startError (syncerOrNew namer m (syncerKeyOf ns n e))) es"
proof (induction es arbitrary: errs m)
  case Nil
  then show ?case by (simp add: List.map_filter_simps)
next
  case (Cons e es)
  let ?st = "ensureSyncer namer ns n e (errs, m)"
  have wf': "wellFormed (snd ?st)" by (rule ensureSyncer_wellFormed [OF Cons.prems])
  have A: "fst (ensureSyncersLoop namer ns n (e # es) (errs, m)) =
           fst (ensureSyncersLoop namer ns n es (fst ?st, snd ?st))" by simp
  have B: "fst (ensureSyncersLoop namer ns n es (fst ?st, snd ?st)) =
     fst ?st @ List.map_filter (\<lambda>e. startError (syncerOrNew namer (snd ?st) (syncerKeyOf ns n e))) es"
    by (rule Cons.IH [OF wf'])
  have C: "fst ?st = errs @ (case startError (syncerOrNew namer m (syncerKeyOf ns n e)) of
               Some err \<Rightarrow> [err] | None \<Rightarrow> [])"
    by (rule ensureSyncer_errors [OF Cons.prems])
  have D: "(\<lambda>e'. startError (syncerOrNew namer (snd ?st) (syncerKeyOf ns n e'))) =
           (\<lambda>e'. startError (syncerOrNew namer m (syncerKeyOf ns n e')))"
    by (simp add: ensureSyncer_stable [OF Cons.prems])
  have "fst (ensureSyncersLoop namer ns n (e # es) (errs, m)) =
        fst ?st @ List.map_filter (\<lambda>e. startError (syncerOrNew namer m (syncerKeyOf ns n e))) es"
    using B by (simp only: A D)
  then have "fst (ensureSyncersLoop namer ns n (e # es) (errs, m)) =
        (errs @ (case startError (syncerOrNew namer m (syncerKeyOf ns n e)) of
               Some err \<Rightarrow> [err] | None \<Rightarrow> [])) @
        List.map_filter (\<lambda>e. startError (syncerOrNew namer m (syncerKeyOf ns n e))) es"
    by (simp only: C)
  then show ?case
    by (simp add: List.map_filter_simps del: ensureSyncersLoop.simps split: option.splits)
qed

lemma ensureSyncersLoop_length:
  "length (syncers m) \<le> length (syncers (snd (ensureSyncersLoop namer ns n es (errs, m))))"
proof (induction es arbitrary: errs m)
  case Nil
  show ?case by simp
next
  case (Cons e es)
  let ?st = "ensureSyncer namer ns n e (errs, m)"
  have "length (syncers (snd ?st)) \<le>
        length (syncers (snd (ensureSyncersLoop namer ns n es (fst ?st, snd ?st))))"
    by (rule Cons.IH)
  moreover have "length (syncers m) \<le> length (syncers (snd ?st))"
    by (simp add: ensureSyncer_length)
  ultimately show ?case by simp
qed

lemma ensureSyncersLoop_syncerMap_kept:
  "wellFormed m \<Longrightarrow> map_of (syncerMap m) k = Some a \<Longrightarrow>
   map_of (syncerMap (snd (ensureSyncersLoop namer ns n es (errs, m)))) k = Some a"
proof (induction es arbitrary: errs m)
  case Nil
  then show ?case by simp
next
  case (Cons e es)
  let ?st = "ensureSyncer namer ns n e (errs, m)"
  have wf': "wellFormed (snd ?st)" by (rule ensureSyncer_wellFormed [OF Cons.prems(1)])
  have step: "map_of (syncerMap (snd ?st)) k = Some a"
    using Cons.prems(2) by (simp add: ensureSyncer_syncerMap)
  have "map_of (syncerMap (snd (ensureSyncersLoop namer ns n es (fst ?st, snd ?st)))) k = Some a"
    by (rule Cons.IH [OF wf' step])
  then show ?case by simp
qed

lemma ensureSyncersLoop_syncerMap_other:
  "k \<notin> syncerKeyOf ns n ` set es \<Longrightarrow>
   map_of (syncerMap (snd (ensureSyncersLoop namer ns n es (errs, m)))) k = map_of (syncerMap m) k"
proof (induction es arbitrary: errs m)
  case Nil
  then show ?case by simp
next
  case (Cons e es)
  let ?st = "ensureSyncer namer ns n e (errs, m)"
  from Cons.prems have k: "k \<noteq> syncerKeyOf ns n e" "k \<notin> syncerKeyOf ns n ` set es" by auto
  have "map_of (syncerMap (snd (ensureSyncersLoop namer ns n es (fst ?st, snd ?st)))) k =
        map_of (syncerMap (snd ?st)) k"
    by (rule Cons.IH [OF k(2)])
  with k(1) show ?case by (simp add: ensureSyncer_syncerMap)
qed

lemma ensureSyncersLoop_syncerMap_fresh:
  "wellFormed m \<Longrightarrow> k \<in> syncerKeyOf ns n ` set es \<Longrightarrow> map_of (syncerMap m) k = None \<Longrightarrow>
   \<exists>a. map_of (syncerMap (snd (ensureSyncersLoop namer ns n es (errs, m)))) k = Some a \<and>
       length (syncers m) \<le> a"
proof (induction es arbitrary: errs m)
  case Nil
  then show ?case by simp
next
  case (Cons e es)
  let ?st = "ensureSyncer namer ns n e (errs, m)"
  have wf': "wellFormed (snd ?st)" by (rule ensureSyncer_wellFormed [OF Cons.prems(1)])
  have len: "length (syncers m) \<le> length (syncers (snd ?st))"
    by (simp add: ensureSyncer_length)
  show ?case
  proof (cases "k = syncerKeyOf ns n e")
    case True
    then have "map_of (syncerMap (snd ?st)) k = Some (length (syncers m))"
      using Cons.prems(3) by (simp add: ensureSyncer_syncerMap)
    then have "map_of (syncerMap (snd (ensureSyncersLoop namer ns n es (fst ?st, snd ?st)))) k =
        Some (length (syncers m))"
      by (rule ensureSyncersLoop_syncerMap_kept [OF wf'])
    then show ?thesis by simp
  next
    case False
    with Cons.prems(2) have k: "k \<in> syncerKeyOf ns n ` set es" by auto
    from False have none: "map_of (syncerMap (snd ?st)) k = None"
      using Cons.prems(3) by (simp add: ensureSyncer_syncerMap)
    obtain a where "map_of (syncerMap (snd (ensureSyncersLoop namer ns n es (fst ?st, snd ?st)))) k = Some a"
      and "length (syncers (snd ?st)) \<le> a"
      using Cons.IH [OF wf' k none, of "fst ?st"] by blast
    with len show ?thesis by auto
  qed
qed

lemma syncerKeyOf_inj [simp]: "syncerKeyOf ns n e = syncerKeyOf ns n e' \<longleftrightarrow> e = e'"
  by (cases e; cases e') (simp add: syncerKeyOf_def getSyncerKey_def)

lemma syncerKeyOf_service:
  "syncerKeyOf ns n e = syncerKeyOf ns' n' e' \<Longrightarrow> ns = ns' \<and> n = n'"
  by (simp add: syncerKeyOf_def getSyncerKey_def)

lemma set_Difference [simp]: "set (Difference p1 p2) = set p1 - set p2"
  by (auto simp: Difference_def)

lemma lookupSyncer_svcPortMap_update [simp]:
  "lookupSyncer (m\<lparr>svcPortMap := x\<rparr>) k = lookupSyncer m k"
  by (simp add: lookupSyncer_def)

lemma wellFormed_svcPortMap_update:
  "wellFormed m \<Longrightarrow> wellFormed (m\<lparr>svcPortMap := AList.update key ports (svcPortMap m)\<rparr>)"
  by (simp add: wellFormed_def distinct_update)

lemma wellFormed_svcPortMap_delete:
  "wellFormed m \<Longrightarrow> wellFormed (m\<lparr>svcPortMap := AList.delete key (svcPortMap m)\<rparr>)"
  by (simp add: wellFormed_def distinct_delete)

lemma syncerOrNew_cong:
  "lookupSyncer m k = lookupSyncer m' k \<Longrightarrow> syncerOrNew namer m k = syncerOrNew namer m' k"
  by (simp add: syncerOrNew_def)

lemma EnsureSyncers_unfold:
  "EnsureSyncers namer m ns n P =
     (NewAggregate (fst (ensureSyncersLoop namer ns n
          (Difference P (currentPortsOf m (getServiceKey ns n)))
          ([], stopSyncers ns n (Difference (currentPortsOf m (getServiceKey ns n)) P)
                 (m\<lparr>svcPortMap := AList.update (getServiceKey ns n) P (svcPortMap m)\<rparr>)))),
      snd (ensureSyncersLoop namer ns n
          (Difference P (currentPortsOf m (getServiceKey ns n)))
          ([], stopSyncers ns n (Difference (currentPortsOf m (getServiceKey ns n)) P)
                 (m\<lparr>svcPortMap := AList.update (getServiceKey ns n) P (svcPortMap m)\<rparr>))))"
  by (simp add: EnsureSyncers_def Let_def)

lemma EnsureSyncers_wellFormed:
  "wellFormed m \<Longrightarrow> wellFormed (snd (EnsureSyncers namer m ns n P))"
  unfolding EnsureSyncers_unfold snd_conv
  by (intro ensureSyncersLoop_wellFormed stopSyncers_wellFormed wellFormed_svcPortMap_update)

lemma EnsureSyncers_svcPortMap:
  "map_of (svcPortMap (snd (EnsureSyncers namer m ns n P))) key =
     (if key = getServiceKey ns n then Some P else map_of (svcPortMap m) key)"
  unfolding EnsureSyncers_unfold snd_conv
  by (simp add: update_conv')

lemma EnsureSyncers_lookup:
  assumes "wellFormed m"
  shows "lookupSyncer (snd (EnsureSyncers namer m ns n P)) k =
     (if k \<in> syncerKeyOf ns n ` (set P - set (currentPortsOf m (getServiceKey ns n)))
      then Some (startOrKeep (syncerOrNew namer m k))
      else if k \<in> syncerKeyOf ns n ` (set (currentPortsOf m (getServiceKey ns n)) - set P)
      then map_option Stop (lookupSyncer m k)
      else lookupSyncer m k)"
proof -
  let ?cur = "currentPortsOf m (getServiceKey ns n)"
  let ?m1 = "m\<lparr>svcPortMap := AList.update (getServiceKey ns n) P (svcPortMap m)\<rparr>"
  let ?m2 = "stopSyncers ns n (Difference ?cur P) ?m1"
  have wf1: "wellFormed ?m1" by (rule wellFormed_svcPortMap_update [OF assms])
  have wf2: "wellFormed ?m2" by (rule stopSyncers_wellFormed [OF wf1])
  have l2: "lookupSyncer ?m2 k' =
     (if k' \<in> syncerKeyOf ns n ` (set ?cur - set P) then map_option Stop (lookupSyncer m k')
      else lookupSyncer m k')" for k'
    by (simp add: stopSyncers_lookup [OF wf1])
  have "syncerOrNew namer ?m2 k = syncerOrNew namer m k"
    if "k \<in> syncerKeyOf ns n ` (set P - set ?cur)"
  proof (rule syncerOrNew_cong)
    from that have "k \<notin> syncerKeyOf ns n ` (set ?cur - set P)" by auto
    then show "lookupSyncer ?m2 k = lookupSyncer m k" by (simp add: l2)
  qed
  then show ?thesis
    unfolding EnsureSyncers_unfold snd_conv
    by (simp add: ensureSyncersLoop_lookup [OF wf2] l2)
qed

lemma EnsureSyncers_error:
  assumes "wellFormed m"
  shows "fst (EnsureSyncers namer m ns n P) =
     NewAggregate (List.map_filter (\<lambda>e. startError (syncerOrNew namer m (syncerKeyOf ns n e)))
        (Difference P (currentPortsOf m (getServiceKey ns n))))"
proof -
  let ?cur = "currentPortsOf m (getServiceKey ns n)"
  let ?m1 = "m\<lparr>svcPortMap := AList.update (getServiceKey ns n) P (svcPortMap m)\<rparr>"
  let ?m2 = "stopSyncers ns n (Difference ?cur P) ?m1"
  have wf1: "wellFormed ?m1" by (rule wellFormed_svcPortMap_update [OF assms])
  have wf2: "wellFormed ?m2" by (rule stopSyncers_wellFormed [OF wf1])
  have "syncerOrNew namer ?m2 (syncerKeyOf ns n e) = syncerOrNew namer m (syncerKeyOf ns n e)"
    if "e \<in> set (Difference P ?cur)" for e
  proof (rule syncerOrNew_cong)
    from that have "syncerKeyOf ns n e \<notin> syncerKeyOf ns n ` (set ?cur - set P)" by auto
    then show "lookupSyncer ?m2 (syncerKeyOf ns n e) = lookupSyncer m (syncerKeyOf ns n e)"
      by (simp add: stopSyncers_lookup [OF wf1])
  qed
  then have "List.map_filter (\<lambda>e. startError (syncerOrNew namer ?m2 (syncerKeyOf ns n e)))
               (Difference P ?cur) =
             List.map_filter (\<lambda>e. startError (syncerOrNew namer m (syncerKeyOf ns n e)))
               (Difference P ?cur)"
    unfolding List.map_filter_def by (auto intro!: map_cong filter_cong)
  then show ?thesis
    unfolding EnsureSyncers_unfold fst_conv
    by (simp add: ensureSyncersLoop_errors [OF wf2])
qed

lemma EnsureSyncers_syncerMap_kept:
  assumes "wellFormed m" and "map_of (syncerMap m) k = Some a"
  shows "map_of (syncerMap (snd (EnsureSyncers namer m ns n P))) k = Some a"
  unfolding EnsureSyncers_unfold snd_conv
  by (rule ensureSyncersLoop_syncerMap_kept)
     (simp_all add: assms stopSyncers_wellFormed wellFormed_svcPortMap_update)

lemma EnsureSyncers_syncerMap_other:
  assumes "k \<notin> syncerKeyOf ns n ` (set P - set (currentPortsOf m (getServiceKey ns n)))"
  shows "map_of (syncerMap (snd (EnsureSyncers namer m ns n P))) k = map_of (syncerMap m) k"
  unfolding EnsureSyncers_unfold snd_conv
  using assms by (simp add: ensureSyncersLoop_syncerMap_other)

lemma EnsureSyncers_syncerMap_fresh:
  assumes "wellFormed m" and "e \<in> set P" and "e \<notin> set (currentPortsOf m (getServiceKey ns n))"
    and "map_of (syncerMap m) (syncerKeyOf ns n e) = None"
  shows "\<exists>a. map_of (syncerMap (snd (EnsureSyncers namer m ns n P))) (syncerKeyOf ns n e) = Some a \<and>
             length (syncers m) \<le> a"
proof -
  let ?cur = "currentPortsOf m (getServiceKey ns n)"
  let ?m1 = "m\<lparr>svcPortMap := AList.update (getServiceKey ns n) P (svcPortMap m)\<rparr>"
  let ?m2 = "stopSyncers ns n (Difference ?cur P) ?m1"
  have wf2: "wellFormed ?m2"
    by (intro stopSyncers_wellFormed wellFormed_svcPortMap_update assms(1))
  have "\<exists>a. map_of (syncerMap (snd (ensureSyncersLoop namer ns n (Difference P ?cur) ([], ?m2))))
           (syncerKeyOf ns n e) = Some a \<and> length (syncers ?m2) \<le> a"
    by (rule ensureSyncersLoop_syncerMap_fresh [OF wf2]) (use assms in simp_all)
  then show ?thesis
    unfolding EnsureSyncers_unfold snd_conv by simp
qed

lemma map_filter_Nil_iff: "List.map_filter f xs = [] \<longleftrightarrow> (\<forall>x \<in> set xs. f x = None)"
  by (induction xs) (auto simp: List.map_filter_simps split: option.splits)

lemma set_map_filter: "set (List.map_filter f xs) = {y. \<exists>x \<in> set xs. f x = Some y}"
  by (induction xs) (auto simp: List.map_filter_simps split: option.splits)

lemma NewAggregate_None_iff [simp]: "NewAggregate errs = None \<longleftrightarrow> errs = []"
  by (simp add: NewAggregate_def)

lemma isRunning_startOrKeep:
  "startError s = None \<Longrightarrow> shuttingDown s \<longrightarrow> stopped s \<Longrightarrow> isRunning (startOrKeep s)"
  by (auto simp: startError_def startOrKeep_def isRunning_def Start_def IsStopped_def
      IsShuttingDown_def split: if_splits)

lemma not_isRunning_Stop [simp]: "\<not> isRunning (Stop s)"
  by (simp add: isRunning_def)

lemma syncerOrNew_flags:
  assumes "wellFormed m"
  shows "shuttingDown (syncerOrNew namer m k) \<longrightarrow> stopped (syncerOrNew namer m k)"
proof (cases "map_of (syncerMap m) k")
  case None
  then show ?thesis by (simp add: syncerOrNew_def lookupSyncer_def)
next
  case (Some a)
  then have "a < length (syncers m)" using wellFormed_addr [OF assms] by simp
  with assms Some show ?thesis
    by (simp add: syncerOrNew_def lookupSyncer_def wellFormed_map_of)
qed

lemma lookupSyncer_store_update_other:
  assumes "wellFormed m" and "map_of (syncerMap m) k0 = Some a" and "k \<noteq> k0"
  shows "lookupSyncer (m\<lparr>syncers := (syncers m)[a := s']\<rparr>) k = lookupSyncer m k"
proof (cases "map_of (syncerMap m) k")
  case None
  then show ?thesis by (simp add: lookupSyncer_def)
next
  case (Some b)
  with wellFormed_inj [OF assms(1) Some, of k0] assms(2,3) have "b \<noteq> a" by auto
  with Some show ?thesis by (simp add: lookupSyncer_def)
qed

lemma syncerKey_Sync [simp]: "syncerKey (Sync s) = syncerKey s"
  by (simp add: Sync_def)

lemma syncSyncerOf_maps [simp]:
  "svcPortMap (syncSyncerOf ns n e m) = svcPortMap m"
  "syncerMap (syncSyncerOf ns n e m) = syncerMap m"
  by (simp_all add: syncSyncerOf_def split: option.splits)

lemma syncSyncerOf_wellFormed:
  assumes "wellFormed m"
  shows "wellFormed (syncSyncerOf ns n e m)"
proof (cases "map_of (syncerMap m) (getSyncerKey ns n (fst e) (snd e))")
  case None
  with assms show ?thesis by (simp add: syncSyncerOf_def)
next
  case (Some a)
  then have "a < length (syncers m)" using wellFormed_addr [OF assms] by simp
  then have "shuttingDown (syncers m ! a) \<longrightarrow> stopped (syncers m ! a)"
    using assms by (simp add: wellFormed_map_of)
  then have "shuttingDown (Sync (syncers m ! a)) \<longrightarrow> stopped (Sync (syncers m ! a))"
    by (simp add: Sync_def)
  with Some assms show ?thesis
    by (simp add: syncSyncerOf_def wellFormed_store_update)
qed

lemma syncSyncerOf_lookup_other:
  assumes "wellFormed m" and "k \<noteq> syncerKeyOf ns n e"
  shows "lookupSyncer (syncSyncerOf ns n e m) k = lookupSyncer m k"
proof (cases "map_of (syncerMap m) (syncerKeyOf ns n e)")
  case None
  then show ?thesis by (simp add: syncSyncerOf_def syncerKeyOf_def)
next
  case (Some a)
  show ?thesis
    using lookupSyncer_store_update_other [OF assms(1) Some assms(2)] Some
    by (simp add: syncSyncerOf_def syncerKeyOf_def)
qed

lemma syncSyncers_maps [simp]:
  "svcPortMap (syncSyncers ns n es m) = svcPortMap m"
  "syncerMap (syncSyncers ns n es m) = syncerMap m"
  by (induction es arbitrary: m; simp)+

lemma syncSyncers_wellFormed:
  "wellFormed m \<Longrightarrow> wellFormed (syncSyncers ns n es m)"
  by (induction es arbitrary: m) (simp_all add: syncSyncerOf_wellFormed)

lemma syncSyncers_lookup_other:
  "wellFormed m \<Longrightarrow> k \<notin> syncerKeyOf ns n ` set es \<Longrightarrow>
   lookupSyncer (syncSyncers ns n es m) k = lookupSyncer m k"
proof (induction es arbitrary: m)
  case Nil
  then show ?case by simp
next
  case (Cons e es)
  from Cons.prems(2) have k: "k \<noteq> syncerKeyOf ns n e" "k \<notin> syncerKeyOf ns n ` set es" by auto
  have "lookupSyncer (syncSyncers ns n es (syncSyncerOf ns n e m)) k =
        lookupSyncer (syncSyncerOf ns n e m) k"
    by (rule Cons.IH [OF syncSyncerOf_wellFormed [OF Cons.prems(1)] k(2)])
  then show ?case
    by (simp add: syncSyncerOf_lookup_other [OF Cons.prems(1) k(1)])
qed

lemma wellFormed_svcPortMap:
  "wellFormed m \<Longrightarrow> distinct (map fst ports) \<Longrightarrow> wellFormed (m\<lparr>svcPortMap := ports\<rparr>)"
  by (simp add: wellFormed_def)

lemma StopSyncer_wellFormed:
  assumes "wellFormed m"
  shows "wellFormed (StopSyncer m ns n)"
proof (cases "map_of (svcPortMap m) (getServiceKey ns n)")
  case None
  with assms show ?thesis by (simp add: StopSyncer_def)
next
  case (Some ports)
  have "distinct (map fst (AList.delete (getServiceKey ns n) (svcPortMap m)))"
    using assms by (simp add: wellFormed_def distinct_delete)
  with Some show ?thesis
    by (simp add: StopSyncer_def wellFormed_svcPortMap stopSyncers_wellFormed [OF assms])
qed

lemma SyncService_wellFormed: "wellFormed m \<Longrightarrow> wellFormed (SyncService m ns n)"
  by (simp add: SyncService_def syncSyncers_wellFormed split: option.splits)

lemma StopSyncer_svcPortMap:
  "map_of (svcPortMap (StopSyncer m ns n)) key =
     (if key = getServiceKey ns n then None else map_of (svcPortMap m) key)"
  by (cases "map_of (svcPortMap m) (getServiceKey ns n)")
     (auto simp: StopSyncer_def Let_def delete_conv')

lemma StopSyncer_syncerMap [simp]: "syncerMap (StopSyncer m ns n) = syncerMap m"
  by (simp add: StopSyncer_def Let_def split: option.splits)

lemma SyncService_maps [simp]:
  "svcPortMap (SyncService m ns n) = svcPortMap m"
  "syncerMap (SyncService m ns n) = syncerMap m"
  by (simp_all add: SyncService_def split: option.splits)

lemma StopSyncer_lookup_other:
  assumes "wellFormed m" and "sp_namespace k \<noteq> ns \<or> sp_name k \<noteq> n"
  shows "lookupSyncer (StopSyncer m ns n) k = lookupSyncer m k"
proof -
  have "k \<notin> syncerKeyOf ns n ` set es" for es using assms(2) by auto
  then show ?thesis
    by (simp add: StopSyncer_def Let_def stopSyncers_lookup [OF assms(1)] split: option.splits)
qed

lemma SyncService_lookup_other:
  assumes "wellFormed m" and "sp_namespace k \<noteq> ns \<or> sp_name k \<noteq> n"
  shows "lookupSyncer (SyncService m ns n) k = lookupSyncer m k"
proof -
  have "k \<notin> syncerKeyOf ns n ` set es" for es using assms(2) by auto
  then show ?thesis
    by (simp add: SyncService_def syncSyncers_lookup_other [OF assms(1)] split: option.splits)
qed

subsection \<open>The invariant holds in every reachable registry\<close>

text \<open>
  The theorems about the manager assume a well-formed registry. That is no restriction
  on the program: the new manager is well formed, and every operation of the manager,
  the collection of stopped syncers and every step of a syncer's loop keep it so.
\<close>

lemma newSyncerManager_wellFormed: "wellFormed newSyncerManager"
  by (simp add: wellFormed_def newSyncerManager_def)

lemma stopAll_wellFormed:
  "wellFormed m \<Longrightarrow> wellFormed (m\<lparr>syncers := stopAll as (syncers m)\<rparr>)"
proof (induction as arbitrary: m)
  case Nil
  then show ?case by simp
next
  case (Cons a as)
  let ?m1 = "m\<lparr>syncers := (syncers m)[a := Stop (syncers m ! a)]\<rparr>"
  have "wellFormed ?m1"
    by (rule wellFormed_store_update [OF Cons.prems]) (simp_all add: Stop_def)
  from Cons.IH [OF this] show ?case by simp
qed

lemma ShutDown_wellFormed: "wellFormed m \<Longrightarrow> wellFormed (ShutDown m)"
  by (simp add: ShutDown_def stopAll_wellFormed)

lemma set_delete_subset: "set (AList.delete k al) \<subseteq> set al"
  by (auto simp: AList.delete_eq)

lemma garbageCollectSyncer_wellFormed:
  assumes "wellFormed m" and "garbageCollectSyncer m key = Some m'"
  shows "wellFormed m'"
proof -
  have "wellFormed (m\<lparr>syncerMap := AList.delete key (syncerMap m)\<rparr>)"
    using assms(1) set_delete_subset [of key "syncerMap m"]
    by (auto simp: wellFormed_def distinct_delete)
  with assms show ?thesis
    by (auto simp: garbageCollectSyncer_def split: option.splits if_splits)
qed

lemma garbageCollectSyncers_wellFormed:
  "wellFormed m \<Longrightarrow> garbageCollectSyncers keys m = Some m' \<Longrightarrow> wellFormed m'"
proof (induction keys arbitrary: m)
  case Nil
  then show ?case by simp
next
  case (Cons key keys)
  then show ?case
    by (cases "garbageCollectSyncer m key")
       (auto dest: garbageCollectSyncer_wellFormed)
qed

lemma loopStep_keeps:
  "syncerKey (loopStep mr f s) = syncerKey s"
  "shuttingDown s \<longrightarrow> stopped s \<Longrightarrow> shuttingDown (loopStep mr f s) \<longrightarrow> stopped (loopStep mr f s)"
  by (auto simp: loopStep_def split: phase.splits)

lemma reachable_wellFormed: "reachable m \<Longrightarrow> wellFormed m"
proof (induction rule: reachable.induct)
  case reachable_new
  show ?case by (rule newSyncerManager_wellFormed)
next
  case (reachable_EnsureSyncers manager namer namespace name newPorts)
  then show ?case by (simp add: EnsureSyncers_wellFormed)
next
  case (reachable_StopSyncer manager namespace name)
  then show ?case by (simp add: StopSyncer_wellFormed)
next
  case (reachable_Sync manager namespace name)
  then show ?case by (simp add: SyncService_wellFormed)
next
  case (reachable_ShutDown manager)
  then show ?case by (simp add: ShutDown_wellFormed)
next
  case (reachable_GC manager manager')
  then show ?case by (blast intro: garbageCollectSyncers_wellFormed)
next
  case (reachable_loopStep manager a maxRetries syncFails)
  from reachable_loopStep.IH reachable_loopStep.hyps(2)
  have "shuttingDown (syncers manager ! a) \<longrightarrow> stopped (syncers manager ! a)"
    by (simp add: wellFormed_map_of)
  then show ?case
    by (intro wellFormed_store_update [OF reachable_loopStep.IH] loopStep_keeps)
qed

text \<open>Sequentially, the collection of stopped syncers never meets an absent key.\<close>

lemma garbageCollectSyncers_total:
  "distinct keys \<Longrightarrow> set keys \<subseteq> fst ` set (syncerMap m) \<Longrightarrow>
   \<exists>m'. garbageCollectSyncers keys m = Some m'"
proof (induction keys arbitrary: m)
  case Nil
  show ?case by simp
next
  case (Cons key keys)
  from Cons.prems(2) obtain a where a: "map_of (syncerMap m) key = Some a"
    by (cases "map_of (syncerMap m) key") (auto simp: map_of_eq_None_iff)
  then obtain m1 where m1: "garbageCollectSyncer m key = Some m1"
    and sm: "syncerMap m1 = syncerMap m \<or> syncerMap m1 = AList.delete key (syncerMap m)"
    by (auto simp: garbageCollectSyncer_def)
  have "fst ` set (AList.delete key (syncerMap m)) = fst ` set (syncerMap m) - {key}"
    by (auto simp: AList.delete_eq image_iff)
  with sm Cons.prems have "set keys \<subseteq> fst ` set (syncerMap m1)" by auto
  moreover from Cons.prems(1) have "distinct keys" by simp
  ultimately obtain m' where "garbageCollectSyncers keys m1 = Some m'"
    using Cons.IH by blast
  with m1 show ?case by simp
qed

lemma GC_total:
  assumes "wellFormed m"
  shows "\<exists>r. GC namer m c = Some r"
proof -
  from assms have d: "distinct (map fst (syncerMap m))" by (simp add: wellFormed_def)
  then have "distinct (getAllStoppedSyncerKeys m)"
    unfolding getAllStoppedSyncerKeys_def by (rule distinct_map_filter)
  moreover have "set (getAllStoppedSyncerKeys m) \<subseteq> fst ` set (syncerMap m)"
    by (auto simp: getAllStoppedSyncerKeys_def)
  ultimately obtain m' where "garbageCollectSyncers (getAllStoppedSyncerKeys m) m = Some m'"
    using garbageCollectSyncers_total by blast
  then show ?thesis
    by (cases "garbageCollectNEG namer m' c") (auto simp: GC_def split: option.splits)
qed

section \<open>Claims about EnsureSyncers\<close>

text \<open>
  Claim C1, as amended. After \<open>EnsureSyncers(namespace, name, newPorts)\<close> on a well-formed
  registry: the stored port map of the service is \<open>newPorts\<close>; a syncer whose entry is in
  both the stored and the new map is left untouched (same object, same state); the syncer
  of every removed entry is not Running; if the call returns no error, every added entry
  has a Running syncer; and if moreover the Running syncers of the service were exactly
  those of the stored map before the call, they are exactly those of \<open>newPorts\<close> after it.
\<close>

theorem ensureSyncers_registry:
  assumes wf: "wellFormed manager"
    and res: "EnsureSyncers namer manager namespace name newPorts = (err, manager')"
  shows "map_of (svcPortMap manager') (getServiceKey namespace name) = Some newPorts \<and>
    (\<forall>e. e \<in> set newPorts \<and> e \<in> set (currentPortsOf manager (getServiceKey namespace name)) \<longrightarrow>
       map_of (syncerMap manager') (syncerKeyOf namespace name e) =
         map_of (syncerMap manager) (syncerKeyOf namespace name e) \<and>
       lookupSyncer manager' (syncerKeyOf namespace name e) =
         lookupSyncer manager (syncerKeyOf namespace name e)) \<and>
    (\<forall>e. e \<in> set (currentPortsOf manager (getServiceKey namespace name)) \<and> e \<notin> set newPorts \<longrightarrow>
       \<not> runningAt manager' (syncerKeyOf namespace name e)) \<and>
    (err = None \<longrightarrow>
       (\<forall>e. e \<in> set newPorts \<and> e \<notin> set (currentPortsOf manager (getServiceKey namespace name)) \<longrightarrow>
          runningAt manager' (syncerKeyOf namespace name e))) \<and>
    (err = None \<and>
     (\<forall>e. runningAt manager (syncerKeyOf namespace name e) \<longleftrightarrow>
          e \<in> set (currentPortsOf manager (getServiceKey namespace name))) \<longrightarrow>
       (\<forall>e. runningAt manager' (syncerKeyOf namespace name e) \<longleftrightarrow> e \<in> set newPorts))"
proof -
  let ?cur = "currentPortsOf manager (getServiceKey namespace name)"
  let ?k = "syncerKeyOf namespace name"
  have m': "manager' = snd (EnsureSyncers namer manager namespace name newPorts)"
    and err: "err = fst (EnsureSyncers namer manager namespace name newPorts)"
    using res by simp_all
  have stored: "map_of (svcPortMap manager') (getServiceKey namespace name) = Some newPorts"
    unfolding m' by (simp add: EnsureSyncers_svcPortMap)
  have look: "lookupSyncer manager' (?k e) =
     (if e \<in> set newPorts - set ?cur then Some (startOrKeep (syncerOrNew namer manager (?k e)))
      else if e \<in> set ?cur - set newPorts then map_option Stop (lookupSyncer manager (?k e))
      else lookupSyncer manager (?k e))" for e
    unfolding m' EnsureSyncers_lookup [OF wf] by (simp add: image_iff)
  have kept: "map_of (syncerMap manager') (?k e) = map_of (syncerMap manager) (?k e) \<and>
       lookupSyncer manager' (?k e) = lookupSyncer manager (?k e)"
    if "e \<in> set newPorts \<and> e \<in> set ?cur" for e
  proof
    from that have "?k e \<notin> ?k ` (set newPorts - set ?cur)" by auto
    then show "map_of (syncerMap manager') (?k e) = map_of (syncerMap manager) (?k e)"
      unfolding m' by (rule EnsureSyncers_syncerMap_other)
    from that show "lookupSyncer manager' (?k e) = lookupSyncer manager (?k e)"
      by (simp add: look)
  qed
  have removed: "\<not> runningAt manager' (?k e)" if "e \<in> set ?cur \<and> e \<notin> set newPorts" for e
    using that by (cases "lookupSyncer manager (?k e)") (simp_all add: runningAt_def look)
  have added: "runningAt manager' (?k e)"
    if "err = None" and "e \<in> set newPorts \<and> e \<notin> set ?cur" for e
  proof -
    from that(1) have "\<forall>e \<in> set (Difference newPorts ?cur).
        startError (syncerOrNew namer manager (?k e)) = None"
      unfolding err EnsureSyncers_error [OF wf] by (simp add: map_filter_Nil_iff)
    with that(2) have "startError (syncerOrNew namer manager (?k e)) = None" by simp
    then have "isRunning (startOrKeep (syncerOrNew namer manager (?k e)))"
      by (rule isRunning_startOrKeep) (rule syncerOrNew_flags [OF wf])
    with that(2) show ?thesis by (simp add: runningAt_def look)
  qed
  have exact: "runningAt manager' (?k e) \<longleftrightarrow> e \<in> set newPorts"
    if "err = None" and pre: "\<forall>e. runningAt manager (?k e) \<longleftrightarrow> e \<in> set ?cur" for e
  proof (cases "e \<in> set newPorts")
    case True
    show ?thesis
    proof (cases "e \<in> set ?cur")
      case True
      with \<open>e \<in> set newPorts\<close>
      have "runningAt manager' (?k e) = runningAt manager (?k e)"
        by (simp add: runningAt_def look)
      with True \<open>e \<in> set newPorts\<close> pre show ?thesis by blast
    next
      case False
      with \<open>e \<in> set newPorts\<close> added [OF that(1)] show ?thesis by simp
    qed
  next
    case False
    show ?thesis
    proof (cases "e \<in> set ?cur")
      case True
      with False removed show ?thesis by simp
    next
      case False
      with \<open>e \<notin> set newPorts\<close>
      have "runningAt manager' (?k e) = runningAt manager (?k e)"
        by (simp add: runningAt_def look)
      with False \<open>e \<notin> set newPorts\<close> pre show ?thesis by blast
    qed
  qed
  from stored kept removed added exact show ?thesis by blast
qed

text \<open>
  Claim C10. For distinct service keys \<open>(namespace, name)\<close> and \<open>(namespace', name')\<close> and a
  well-formed registry, each of \<open>EnsureSyncers(namespace, name, newPorts)\<close>,
  \<open>StopSyncer(namespace, name)\<close> and \<open>Sync(namespace, name)\<close> leaves the stored port map of
  \<open>(namespace', name')\<close> unchanged, and for every key of \<open>(namespace', name')\<close> leaves the
  syncer-map entry (the reference) and the syncer object it refers to unchanged.
\<close>

theorem other_services_untouched:
  assumes wf: "wellFormed manager"
    and other: "(namespace', name') \<noteq> (namespace, name)"
  shows "\<forall>manager' \<in> {snd (EnsureSyncers namer manager namespace name newPorts),
                        StopSyncer manager namespace name,
                        SyncService manager namespace name}.
           map_of (svcPortMap manager') (getServiceKey namespace' name') =
             map_of (svcPortMap manager) (getServiceKey namespace' name') \<and>
           (\<forall>e. map_of (syncerMap manager') (syncerKeyOf namespace' name' e) =
                  map_of (syncerMap manager) (syncerKeyOf namespace' name' e) \<and>
                lookupSyncer manager' (syncerKeyOf namespace' name' e) =
                  lookupSyncer manager (syncerKeyOf namespace' name' e))"
proof -
  let ?key' = "getServiceKey namespace' name'"
  from other have key: "?key' \<noteq> getServiceKey namespace name"
    by (auto simp: getServiceKey_def)
  have notin: "syncerKeyOf namespace' name' e \<notin> syncerKeyOf namespace name ` A" for e A
    using other by (auto dest: syncerKeyOf_service)
  have sel: "sp_namespace (syncerKeyOf namespace' name' e) \<noteq> namespace \<or>
             sp_name (syncerKeyOf namespace' name' e) \<noteq> name" for e
    using other by auto
  have ensure: "map_of (svcPortMap (snd (EnsureSyncers namer manager namespace name newPorts))) ?key' =
      map_of (svcPortMap manager) ?key' \<and>
    (\<forall>e. map_of (syncerMap (snd (EnsureSyncers namer manager namespace name newPorts)))
            (syncerKeyOf namespace' name' e) =
          map_of (syncerMap manager) (syncerKeyOf namespace' name' e) \<and>
        lookupSyncer (snd (EnsureSyncers namer manager namespace name newPorts))
            (syncerKeyOf namespace' name' e) =
          lookupSyncer manager (syncerKeyOf namespace' name' e))"
    using key notin
    by (simp add: EnsureSyncers_svcPortMap EnsureSyncers_syncerMap_other EnsureSyncers_lookup [OF wf])
  have stop: "map_of (svcPortMap (StopSyncer manager namespace name)) ?key' =
      map_of (svcPortMap manager) ?key' \<and>
    (\<forall>e. map_of (syncerMap (StopSyncer manager namespace name)) (syncerKeyOf namespace' name' e) =
          map_of (syncerMap manager) (syncerKeyOf namespace' name' e) \<and>
        lookupSyncer (StopSyncer manager namespace name) (syncerKeyOf namespace' name' e) =
          lookupSyncer manager (syncerKeyOf namespace' name' e))"
    using key sel by (simp add: StopSyncer_svcPortMap StopSyncer_lookup_other [OF wf])
  have sync: "map_of (svcPortMap (SyncService manager namespace name)) ?key' =
      map_of (svcPortMap manager) ?key' \<and>
    (\<forall>e. map_of (syncerMap (SyncService manager namespace name)) (syncerKeyOf namespace' name' e) =
          map_of (syncerMap manager) (syncerKeyOf namespace' name' e) \<and>
        lookupSyncer (SyncService manager namespace name) (syncerKeyOf namespace' name' e) =
          lookupSyncer manager (syncerKeyOf namespace' name' e))"
    using sel by (simp add: SyncService_lookup_other [OF wf])
  from ensure stop sync show ?thesis by blast
qed

text \<open>
  Claim C3, as amended. When \<open>EnsureSyncers\<close> adds an entry whose key still has a syncer in
  the registry (stopped or still shutting down, not yet collected by \<open>GC\<close>), it keeps that
  same object and calls \<open>Start\<close> on it if it answers \<open>IsStopped\<close>; only when the registry has
  no syncer under the key does it construct a new syncer object, at a reference that did
  not exist before, and start it.
\<close>

theorem ensureSyncers_reuses_registered_syncer:
  assumes wf: "wellFormed manager"
    and res: "EnsureSyncers namer manager namespace name newPorts = (err, manager')"
    and added: "e \<in> set newPorts"
      "e \<notin> set (currentPortsOf manager (getServiceKey namespace name))"
  shows "(\<forall>a. map_of (syncerMap manager) (syncerKeyOf namespace name e) = Some a \<longrightarrow>
            map_of (syncerMap manager') (syncerKeyOf namespace name e) = Some a \<and>
            syncers manager' ! a = startOrKeep (syncers manager ! a)) \<and>
         (map_of (syncerMap manager) (syncerKeyOf namespace name e) = None \<longrightarrow>
            (\<exists>a. map_of (syncerMap manager') (syncerKeyOf namespace name e) = Some a \<and>
                 length (syncers manager) \<le> a \<and>
                 syncers manager' ! a =
                   startOrKeep (newSyncer (syncerKeyOf namespace name e)
                                  (NEG namer namespace name (fst e)))))"
proof -
  let ?k = "syncerKeyOf namespace name e"
  have m': "manager' = snd (EnsureSyncers namer manager namespace name newPorts)"
    using res by simp
  from added have "?k \<in> syncerKeyOf namespace name `
      (set newPorts - set (currentPortsOf manager (getServiceKey namespace name)))"
    by auto
  then have look: "lookupSyncer manager' ?k = Some (startOrKeep (syncerOrNew namer manager ?k))"
    unfolding m' EnsureSyncers_lookup [OF wf] by simp
  have reuse: "map_of (syncerMap manager') ?k = Some a \<and>
      syncers manager' ! a = startOrKeep (syncers manager ! a)"
    if "map_of (syncerMap manager) ?k = Some a" for a
  proof -
    have 1: "map_of (syncerMap manager') ?k = Some a"
      unfolding m' by (rule EnsureSyncers_syncerMap_kept [OF wf that])
    with look that show ?thesis
      by (simp add: lookupSyncer_def syncerOrNew_def)
  qed
  have fresh: "\<exists>a. map_of (syncerMap manager') ?k = Some a \<and> length (syncers manager) \<le> a \<and>
      syncers manager' ! a = startOrKeep (newSyncer ?k (NEG namer namespace name (fst e)))"
    if none: "map_of (syncerMap manager) ?k = None"
  proof -
    obtain a where a: "map_of (syncerMap manager') ?k = Some a" "length (syncers manager) \<le> a"
      using EnsureSyncers_syncerMap_fresh [OF wf added none, of namer] unfolding m' by blast
    with look none have "syncers manager' ! a =
        startOrKeep (newSyncer ?k (NEG namer namespace name (fst e)))"
      by (simp add: lookupSyncer_def syncerOrNew_def)
    with a show ?thesis by blast
  qed
  from reuse fresh show ?thesis by blast
qed

text \<open>
  Claim C7. The error \<open>EnsureSyncers\<close> returns is the aggregate of the errors of the
  \<open>Start\<close> calls made for the added entries, one per failing call, in the order of the
  loop: it is \<open>nil\<close> exactly when no \<open>Start\<close> of an added entry fails, and every such
  failure is a member of the aggregate.
\<close>

theorem ensureSyncers_aggregates_start_errors:
  assumes wf: "wellFormed manager"
    and res: "EnsureSyncers namer manager namespace name newPorts = (err, manager')"
  shows "err = NewAggregate
           (List.map_filter (\<lambda>e. startError (syncerOrNew namer manager (syncerKeyOf namespace name e)))
              (Difference newPorts (currentPortsOf manager (getServiceKey namespace name)))) \<and>
         (err = None \<longleftrightarrow>
            (\<forall>e \<in> set newPorts - set (currentPortsOf manager (getServiceKey namespace name)).
               startError (syncerOrNew namer manager (syncerKeyOf namespace name e)) = None)) \<and>
         (\<forall>e \<in> set newPorts - set (currentPortsOf manager (getServiceKey namespace name)).
            \<forall>x. startError (syncerOrNew namer manager (syncerKeyOf namespace name e)) = Some x \<longrightarrow>
              (\<exists>errList. err = Some (ErrAggregate errList) \<and> x \<in> set errList))"
proof -
  let ?f = "\<lambda>e. startError (syncerOrNew namer manager (syncerKeyOf namespace name e))"
  let ?adds = "Difference newPorts (currentPortsOf manager (getServiceKey namespace name))"
  have err: "err = NewAggregate (List.map_filter ?f ?adds)"
    using res EnsureSyncers_error [OF wf, of namer namespace name newPorts] by simp
  have none: "err = None \<longleftrightarrow> (\<forall>e \<in> set ?adds. ?f e = None)"
    unfolding err by (simp add: map_filter_Nil_iff del: set_Difference)
  have some: "\<exists>errList. err = Some (ErrAggregate errList) \<and> x \<in> set errList"
    if "e \<in> set ?adds" "?f e = Some x" for e x
  proof -
    from that have "x \<in> set (List.map_filter ?f ?adds)"
      unfolding set_map_filter by blast
    then show ?thesis
      unfolding err by (auto simp: NewAggregate_def)
  qed
  from err none some show ?thesis by (simp only: set_Difference) blast
qed

section \<open>Evaluation of the examples\<close>

lemmas manager_eval =
  EnsureSyncers_def currentPortsOf_def Difference_def getServiceKey_def getSyncerKey_def
  ensureSyncer_def stopSyncerOf_def syncSyncerOf_def StopSyncer_def SyncService_def Let_def
  newSyncer_def Start_def Stop_def Sync_def IsStopped_def IsShuttingDown_def NewAggregate_def
  newSyncerManager_def syncerKeyOf_def lookupSyncer_def runningAt_def isRunning_def
  wellFormed_def exampleNamer_def startOrKeep_def startError_def syncerOrNew_def

lemma managerFoo_eval:
  "managerFoo =
     \<lparr>svcPortMap = [(ServiceKey ''default'' ''foo'', [(80, ''http''), (443, ''https'')])],
      syncerMap = [(ServicePort ''default'' ''foo'' 80 ''http'', 0),
                   (ServicePort ''default'' ''foo'' 443 ''https'', 1)],
      syncers =
        [\<lparr>syncerKey = ServicePort ''default'' ''foo'' 80 ''http'', negName = ''k8s1-default-foo-80'',
          stopped = False, shuttingDown = False, dirty = False, phase = Syncing,
          retryCount = 0, syncCount = 0, fatalEvents = 0\<rparr>,
         \<lparr>syncerKey = ServicePort ''default'' ''foo'' 443 ''https'', negName = ''k8s1-default-foo-443'',
          stopped = False, shuttingDown = False, dirty = False, phase = Syncing,
          retryCount = 0, syncCount = 0, fatalEvents = 0\<rparr>]\<rparr>"
  by (simp add: managerFoo_def manager_eval)

lemma managerShuttingDown_eval:
  "managerShuttingDown =
     \<lparr>svcPortMap = [(ServiceKey ''default'' ''foo'', [])],
      syncerMap = [(ServicePort ''default'' ''foo'' 80 ''http'', 0)],
      syncers =
        [\<lparr>syncerKey = ServicePort ''default'' ''foo'' 80 ''http'', negName = ''k8s1-default-foo-80'',
          stopped = True, shuttingDown = True, dirty = False, phase = Syncing,
          retryCount = 0, syncCount = 0, fatalEvents = 0\<rparr>]\<rparr>"
  by (simp add: managerShuttingDown_def manager_eval)

text \<open>
  The registry theorem at \<open>managerFoo\<close> (ports 80 and 443 running) and the new port
  map \<open>{80: http, 8080: web}\<close>: no error, the map is stored, the syncer of port 80 is
  the untouched one, 80 and 8080 are Running and 443 is not.
\<close>

theorem ensureSyncers_registry_witness:
  "wellFormed managerFoo \<and>
   fst (EnsureSyncers exampleNamer managerFoo ''default'' ''foo'' [(80, ''http''), (8080, ''web'')]) = None \<and>
   map_of (svcPortMap (snd (EnsureSyncers exampleNamer managerFoo ''default'' ''foo''
       [(80, ''http''), (8080, ''web'')]))) (getServiceKey ''default'' ''foo'') =
     Some [(80, ''http''), (8080, ''web'')] \<and>
   lookupSyncer (snd (EnsureSyncers exampleNamer managerFoo ''default'' ''foo''
       [(80, ''http''), (8080, ''web'')])) (syncerKeyOf ''default'' ''foo'' (80, ''http'')) =
     lookupSyncer managerFoo (syncerKeyOf ''default'' ''foo'' (80, ''http'')) \<and>
   runningAt (snd (EnsureSyncers exampleNamer managerFoo ''default'' ''foo''
       [(80, ''http''), (8080, ''web'')])) (syncerKeyOf ''default'' ''foo'' (80, ''http'')) \<and>
   runningAt (snd (EnsureSyncers exampleNamer managerFoo ''default'' ''foo''
       [(80, ''http''), (8080, ''web'')])) (syncerKeyOf ''default'' ''foo'' (8080, ''web'')) \<and>
   \<not> runningAt (snd (EnsureSyncers exampleNamer managerFoo ''default'' ''foo''
       [(80, ''http''), (8080, ''web'')])) (syncerKeyOf ''default'' ''foo'' (443, ''https''))"
proof -
  let ?P = "[(80, ''http''), (8080, ''web'')] :: PortNameMap"
  let ?r = "EnsureSyncers exampleNamer managerFoo ''default'' ''foo'' ?P"
  have wf: "wellFormed managerFoo"
    by (simp add: managerFoo_eval wellFormed_def)
  have cur: "currentPortsOf managerFoo (getServiceKey ''default'' ''foo'') =
      [(80, ''http''), (443, ''https'')]"
    by (simp add: managerFoo_eval currentPortsOf_def getServiceKey_def)
  have err: "fst ?r = None"
    by (simp add: managerFoo_eval manager_eval)
  have res: "?r = (None, snd ?r)"
    using err by (metis prod.collapse)
  have pre: "\<forall>e. runningAt managerFoo (syncerKeyOf ''default'' ''foo'' e) \<longleftrightarrow>
      e \<in> set (currentPortsOf managerFoo (getServiceKey ''default'' ''foo''))"
    unfolding cur by (auto simp: managerFoo_eval manager_eval)
  note T = ensureSyncers_registry [OF wf res]
  from T have stored: "map_of (svcPortMap (snd ?r)) (getServiceKey ''default'' ''foo'') = Some ?P"
    by blast
  from T have "\<forall>e. e \<in> set ?P \<and> e \<in> set (currentPortsOf managerFoo (getServiceKey ''default'' ''foo'')) \<longrightarrow>
       lookupSyncer (snd ?r) (syncerKeyOf ''default'' ''foo'' e) =
         lookupSyncer managerFoo (syncerKeyOf ''default'' ''foo'' e)"
    by blast
  then have kept: "lookupSyncer (snd ?r) (syncerKeyOf ''default'' ''foo'' (80, ''http'')) =
         lookupSyncer managerFoo (syncerKeyOf ''default'' ''foo'' (80, ''http''))"
    unfolding cur by simp
  from T pre have exact: "\<forall>e. runningAt (snd ?r) (syncerKeyOf ''default'' ''foo'' e) \<longleftrightarrow> e \<in> set ?P"
    by blast
  have r80: "runningAt (snd ?r) (syncerKeyOf ''default'' ''foo'' (80, ''http''))"
    and r8080: "runningAt (snd ?r) (syncerKeyOf ''default'' ''foo'' (8080, ''web''))"
    and r443: "\<not> runningAt (snd ?r) (syncerKeyOf ''default'' ''foo'' (443, ''https''))"
    by (simp_all add: exact)
  from wf err stored kept r80 r8080 r443 show ?thesis by blast
qed

text \<open>
  Claim C1 as stated fails: re-adding port 80 while its syncer is still shutting down
  reuses that syncer, \<open>Start\<close> fails, and after \<open>EnsureSyncers\<close> returns (with the
  aggregated error) the entry \<open>(80, http)\<close> of the new map has no Running syncer.
\<close>

theorem ensureSyncers_registry_counterexample:
  "wellFormed managerShuttingDown \<and>
   (80, ''http'') \<in> set [(80 :: port, ''http'')] \<and>
   fst (EnsureSyncers exampleNamer managerShuttingDown ''default'' ''foo'' [(80, ''http'')]) =
     Some (ErrAggregate [ErrSyncerNotStopped (ServicePort ''default'' ''foo'' 80 ''http'')]) \<and>
   \<not> runningAt (snd (EnsureSyncers exampleNamer managerShuttingDown ''default'' ''foo''
          [(80, ''http'')])) (syncerKeyOf ''default'' ''foo'' (80, ''http''))"
  by (simp add: managerShuttingDown_eval manager_eval)

lemma managerTwo_eval:
  "managerTwo =
     \<lparr>svcPortMap = [(ServiceKey ''default'' ''foo'', [(80, ''http''), (443, ''https'')]),
                    (ServiceKey ''default'' ''bar'', [(80, ''http'')])],
      syncerMap = [(ServicePort ''default'' ''foo'' 80 ''http'', 0),
                   (ServicePort ''default'' ''foo'' 443 ''https'', 1),
                   (ServicePort ''default'' ''bar'' 80 ''http'', 2)],
      syncers =
        [\<lparr>syncerKey = ServicePort ''default'' ''foo'' 80 ''http'', negName = ''k8s1-default-foo-80'',
          stopped = False, shuttingDown = False, dirty = False, phase = Syncing,
          retryCount = 0, syncCount = 0, fatalEvents = 0\<rparr>,
         \<lparr>syncerKey = ServicePort ''default'' ''foo'' 443 ''https'', negName = ''k8s1-default-foo-443'',
          stopped = False, shuttingDown = False, dirty = False, phase = Syncing,
          retryCount = 0, syncCount = 0, fatalEvents = 0\<rparr>,
         \<lparr>syncerKey = ServicePort ''default'' ''bar'' 80 ''http'', negName = ''k8s1-default-bar-80'',
          stopped = False, shuttingDown = False, dirty = False, phase = Syncing,
          retryCount = 0, syncCount = 0, fatalEvents = 0\<rparr>]\<rparr>"
  by (simp add: managerTwo_def managerFoo_eval manager_eval)

text \<open>
  The reuse theorem at two registries: re-adding port 80 while its syncer is registered
  and shutting down keeps reference 0; adding it to the empty registry allocates a new
  object, which is Running afterwards.
\<close>

theorem ensureSyncers_reuses_registered_syncer_witness:
  "wellFormed managerShuttingDown \<and>
   map_of (syncerMap managerShuttingDown) (syncerKeyOf ''default'' ''foo'' (80, ''http'')) = Some 0 \<and>
   map_of (syncerMap (snd (EnsureSyncers exampleNamer managerShuttingDown ''default'' ''foo''
      [(80, ''http'')]))) (syncerKeyOf ''default'' ''foo'' (80, ''http'')) = Some 0 \<and>
   wellFormed newSyncerManager \<and>
   map_of (syncerMap newSyncerManager) (syncerKeyOf ''default'' ''foo'' (80, ''http'')) = None \<and>
   (\<exists>a. map_of (syncerMap (snd (EnsureSyncers exampleNamer newSyncerManager ''default'' ''foo''
           [(80, ''http'')]))) (syncerKeyOf ''default'' ''foo'' (80, ''http'')) = Some a \<and>
        length (syncers newSyncerManager) \<le> a \<and>
        isRunning (syncers (snd (EnsureSyncers exampleNamer newSyncerManager ''default'' ''foo''
           [(80, ''http'')])) ! a))"
proof -
  let ?P = "[(80, ''http'')] :: PortNameMap"
  let ?k = "syncerKeyOf ''default'' ''foo'' (80, ''http'')"
  let ?r = "EnsureSyncers exampleNamer managerShuttingDown ''default'' ''foo'' ?P"
  let ?s = "EnsureSyncers exampleNamer newSyncerManager ''default'' ''foo'' ?P"
  have wf: "wellFormed managerShuttingDown"
    by (simp add: managerShuttingDown_eval wellFormed_def)
  have wf0: "wellFormed newSyncerManager"
    by (simp add: newSyncerManager_def wellFormed_def)
  have res: "?r = (fst ?r, snd ?r)" by simp
  have res0: "?s = (fst ?s, snd ?s)" by simp
  have in_new: "(80, ''http'') \<in> set ?P" by simp
  have not_cur: "(80, ''http'') \<notin> set (currentPortsOf managerShuttingDown (getServiceKey ''default'' ''foo''))"
    by (simp add: managerShuttingDown_eval currentPortsOf_def getServiceKey_def)
  have not_cur0: "(80, ''http'') \<notin> set (currentPortsOf newSyncerManager (getServiceKey ''default'' ''foo''))"
    by (simp add: newSyncerManager_def currentPortsOf_def)
  have reg: "map_of (syncerMap managerShuttingDown) ?k = Some 0"
    by (simp add: managerShuttingDown_eval syncerKeyOf_def getSyncerKey_def)
  have unreg: "map_of (syncerMap newSyncerManager) ?k = None"
    by (simp add: newSyncerManager_def)
  from ensureSyncers_reuses_registered_syncer [OF wf res in_new not_cur] reg
  have reused: "map_of (syncerMap (snd ?r)) ?k = Some 0" by blast
  from ensureSyncers_reuses_registered_syncer [OF wf0 res0 in_new not_cur0] unreg
  obtain a where a: "map_of (syncerMap (snd ?s)) ?k = Some a" "length (syncers newSyncerManager) \<le> a"
    "syncers (snd ?s) ! a = startOrKeep (newSyncer ?k (NEG exampleNamer ''default'' ''foo'' (fst (80 :: port, ''http''))))"
    by blast
  have "isRunning (startOrKeep (newSyncer ?k (NEG exampleNamer ''default'' ''foo'' (fst (80 :: port, ''http'')))))"
    by (simp add: manager_eval)
  with a have "\<exists>a. map_of (syncerMap (snd ?s)) ?k = Some a \<and> length (syncers newSyncerManager) \<le> a \<and>
      isRunning (syncers (snd ?s) ! a)"
    by auto
  with wf wf0 reg unreg reused show ?thesis by blast
qed

text \<open>
  Claim C3 as stated fails: \<open>Stop\<close> was called on the syncer of port 80 (it answers
  \<open>IsStopped\<close> and \<open>IsShuttingDown\<close>), a later \<open>EnsureSyncers\<close> re-adds the key, and the
  registry still refers to the old object; no syncer object was constructed or changed.
\<close>

theorem ensureSyncers_reuses_registered_syncer_counterexample:
  "map_of (syncerMap managerShuttingDown) (syncerKeyOf ''default'' ''foo'' (80, ''http'')) = Some 0 \<and>
   IsStopped (syncers managerShuttingDown ! 0) \<and>
   IsShuttingDown (syncers managerShuttingDown ! 0) \<and>
   (80, ''http'') \<notin> set (currentPortsOf managerShuttingDown (getServiceKey ''default'' ''foo'')) \<and>
   map_of (syncerMap (snd (EnsureSyncers exampleNamer managerShuttingDown ''default'' ''foo''
      [(80, ''http'')]))) (syncerKeyOf ''default'' ''foo'' (80, ''http'')) = Some 0 \<and>
   syncers (snd (EnsureSyncers exampleNamer managerShuttingDown ''default'' ''foo'' [(80, ''http'')])) =
     syncers managerShuttingDown"
  by (simp add: managerShuttingDown_eval manager_eval)

text \<open>
  The aggregation theorem at two registries: adding ports 80 and 443 while the syncer of
  80 is shutting down returns the aggregate of that one start error; adding port 8080
  to \<open>managerFoo\<close> starts a new syncer and returns no error.
\<close>

theorem ensureSyncers_aggregates_start_errors_witness:
  "wellFormed managerShuttingDown \<and>
   startError (syncerOrNew exampleNamer managerShuttingDown (syncerKeyOf ''default'' ''foo'' (80, ''http''))) =
     Some (ErrSyncerNotStopped (ServicePort ''default'' ''foo'' 80 ''http'')) \<and>
   fst (EnsureSyncers exampleNamer managerShuttingDown ''default'' ''foo''
          [(80, ''http''), (443, ''https'')]) =
     Some (ErrAggregate [ErrSyncerNotStopped (ServicePort ''default'' ''foo'' 80 ''http'')]) \<and>
   wellFormed managerFoo \<and>
   fst (EnsureSyncers exampleNamer managerFoo ''default'' ''foo'' [(80, ''http''), (8080, ''web'')]) = None"
proof -
  let ?P = "[(80, ''http''), (443, ''https'')] :: PortNameMap"
  let ?r = "EnsureSyncers exampleNamer managerShuttingDown ''default'' ''foo'' ?P"
  let ?Q = "[(80, ''http''), (8080, ''web'')] :: PortNameMap"
  let ?q = "EnsureSyncers exampleNamer managerFoo ''default'' ''foo'' ?Q"
  have wf: "wellFormed managerShuttingDown"
    by (simp add: managerShuttingDown_eval wellFormed_def)
  have wf': "wellFormed managerFoo"
    by (simp add: managerFoo_eval wellFormed_def)
  have res: "?r = (fst ?r, snd ?r)" by simp
  have res': "?q = (fst ?q, snd ?q)" by simp
  have se: "startError (syncerOrNew exampleNamer managerShuttingDown
        (syncerKeyOf ''default'' ''foo'' (80, ''http''))) =
      Some (ErrSyncerNotStopped (ServicePort ''default'' ''foo'' 80 ''http''))"
    by (simp add: managerShuttingDown_eval manager_eval)
  have adds: "Difference ?P (currentPortsOf managerShuttingDown (getServiceKey ''default'' ''foo'')) = ?P"
    by (simp add: managerShuttingDown_eval currentPortsOf_def getServiceKey_def Difference_def)
  from ensureSyncers_aggregates_start_errors [OF wf res]
  have "fst ?r = NewAggregate (List.map_filter
      (\<lambda>e. startError (syncerOrNew exampleNamer managerShuttingDown (syncerKeyOf ''default'' ''foo'' e)))
      (Difference ?P (currentPortsOf managerShuttingDown (getServiceKey ''default'' ''foo''))))"
    by blast
  then have agg: "fst ?r = Some (ErrAggregate [ErrSyncerNotStopped (ServicePort ''default'' ''foo'' 80 ''http'')])"
    unfolding adds by (simp add: List.map_filter_simps managerShuttingDown_eval manager_eval)
  have ok: "\<forall>e \<in> set ?Q - set (currentPortsOf managerFoo (getServiceKey ''default'' ''foo'')).
      startError (syncerOrNew exampleNamer managerFoo (syncerKeyOf ''default'' ''foo'' e)) = None"
    by (simp add: managerFoo_eval manager_eval)
  from ensureSyncers_aggregates_start_errors [OF wf' res'] ok
  have none: "fst ?q = None" by blast
  from wf se agg wf' none show ?thesis by blast
qed

text \<open>
  The frame theorem at \<open>managerTwo\<close>: the three operations on \<open>default/foo\<close> leave the
  entries of \<open>default/bar\<close> as they were, while \<open>StopSyncer\<close> does change the syncer of
  \<open>default/foo\<close>.
\<close>

theorem other_services_untouched_witness:
  "wellFormed managerTwo \<and> (''default'', ''bar'') \<noteq> (''default'', ''foo'') \<and>
   map_of (svcPortMap (StopSyncer managerTwo ''default'' ''foo'')) (getServiceKey ''default'' ''bar'') =
     map_of (svcPortMap managerTwo) (getServiceKey ''default'' ''bar'') \<and>
   lookupSyncer (StopSyncer managerTwo ''default'' ''foo'') (syncerKeyOf ''default'' ''bar'' (80, ''http'')) =
     lookupSyncer managerTwo (syncerKeyOf ''default'' ''bar'' (80, ''http'')) \<and>
   lookupSyncer (SyncService managerTwo ''default'' ''foo'') (syncerKeyOf ''default'' ''bar'' (80, ''http'')) =
     lookupSyncer managerTwo (syncerKeyOf ''default'' ''bar'' (80, ''http'')) \<and>
   lookupSyncer (snd (EnsureSyncers exampleNamer managerTwo ''default'' ''foo'' [(8080, ''web'')]))
       (syncerKeyOf ''default'' ''bar'' (80, ''http'')) =
     lookupSyncer managerTwo (syncerKeyOf ''default'' ''bar'' (80, ''http'')) \<and>
   lookupSyncer (StopSyncer managerTwo ''default'' ''foo'') (syncerKeyOf ''default'' ''foo'' (80, ''http'')) \<noteq>
     lookupSyncer managerTwo (syncerKeyOf ''default'' ''foo'' (80, ''http''))"
proof -
  have wf: "wellFormed managerTwo"
    by (simp add: managerTwo_eval wellFormed_def)
  have ne: "(''default'', ''bar'') \<noteq> (''default'', ''foo'')" by simp
  note T = other_services_untouched [OF wf ne, of exampleNamer "[(8080, ''web'')]"]
  from T have 1: "map_of (svcPortMap (StopSyncer managerTwo ''default'' ''foo'')) (getServiceKey ''default'' ''bar'') =
     map_of (svcPortMap managerTwo) (getServiceKey ''default'' ''bar'')"
    by blast
  from T have 2: "lookupSyncer (StopSyncer managerTwo ''default'' ''foo'') (syncerKeyOf ''default'' ''bar'' (80, ''http'')) =
     lookupSyncer managerTwo (syncerKeyOf ''default'' ''bar'' (80, ''http''))"
    by blast
  from T have 3: "lookupSyncer (SyncService managerTwo ''default'' ''foo'') (syncerKeyOf ''default'' ''bar'' (80, ''http'')) =
     lookupSyncer managerTwo (syncerKeyOf ''default'' ''bar'' (80, ''http''))"
    by blast
  from T have 4: "lookupSyncer (snd (EnsureSyncers exampleNamer managerTwo ''default'' ''foo'' [(8080, ''web'')]))
       (syncerKeyOf ''default'' ''bar'' (80, ''http'')) =
     lookupSyncer managerTwo (syncerKeyOf ''default'' ''bar'' (80, ''http''))"
    by blast
  have 5: "lookupSyncer (StopSyncer managerTwo ''default'' ''foo'') (syncerKeyOf ''default'' ''foo'' (80, ''http'')) \<noteq>
     lookupSyncer managerTwo (syncerKeyOf ''default'' ''foo'' (80, ''http''))"
    by (simp add: managerTwo_eval manager_eval)
  from wf ne 1 2 3 4 5 show ?thesis by blast
qed

section \<open>Claims about garbage collection\<close>

lemma Get_calls [simp]:
  "snd (GetNetworkEndpointGroup c name zone) = c\<lparr>calls := calls c @ [CallGet name zone]\<rparr>"
  by (simp add: GetNetworkEndpointGroup_def)

lemma negExists_calls [simp]: "negExists (c\<lparr>calls := x\<rparr>) name zone = negExists c name zone"
  by (simp add: negExists_def)

lemma Get_absent:
  "\<not> negExists c name zone \<Longrightarrow> \<exists>err. fst (GetNetworkEndpointGroup c name zone) = Inl err"
  by (simp add: GetNetworkEndpointGroup_def)

lemma ensureDelete_Inl:
  "fst (GetNetworkEndpointGroup c name zone) = Inl err \<Longrightarrow>
   ensureDeleteNetworkEndpointGroup c name zone = (None, c\<lparr>calls := calls c @ [CallGet name zone]\<rparr>)"
  by (cases "GetNetworkEndpointGroup c name zone")
     (use Get_calls [of c name zone] in \<open>simp add: ensureDeleteNetworkEndpointGroup_def\<close>)

text \<open>
  Claim C5. When the NEG does not exist in the zone, the per-orphan deletion returns
  success, and the cloud is as before: the only call made is the \<open>get\<close>, and no NEG is
  added or removed.
\<close>

theorem ensureDelete_absent_succeeds:
  assumes "\<not> negExists c name zone"
  shows "ensureDeleteNetworkEndpointGroup c name zone =
           (None, c\<lparr>calls := calls c @ [CallGet name zone]\<rparr>)"
  using Get_absent [OF assms] ensureDelete_Inl by blast

text \<open>
  Claim C9. Whatever error the \<open>get\<close> returns, a transient one as well as NotFound, the
  per-orphan deletion returns success without calling \<open>delete\<close>: the cloud's NEGs are as
  before, only the \<open>get\<close> is recorded, and the loop of \<open>GC\<close> goes on to the next name with
  no error for this one.
\<close>

theorem ensureDelete_swallows_get_errors:
  assumes "fst (GetNetworkEndpointGroup c name zone) = Inl err"
  shows "ensureDeleteNetworkEndpointGroup c name zone =
           (None, c\<lparr>calls := calls c @ [CallGet name zone]\<rparr>) \<and>
         deleteNames zone (name # rest) c =
           deleteNames zone rest (c\<lparr>calls := calls c @ [CallGet name zone]\<rparr>)"
  using ensureDelete_Inl [OF assms] by simp

text \<open>What a deletion leaves: the faults are the cloud's, and no NEG appears.\<close>

lemma ensureDelete_faults:
  "getFails (snd (ensureDeleteNetworkEndpointGroup c name zone)) = getFails c"
  "deleteFails (snd (ensureDeleteNetworkEndpointGroup c name zone)) = deleteFails c"
  by (simp_all add: ensureDeleteNetworkEndpointGroup_def GetNetworkEndpointGroup_def
      DeleteNetworkEndpointGroup_def)

lemma negExists_after_delete [simp]:
  "negExists (c\<lparr>negs := map (\<lambda>e. if fst e = zone then (fst e, removeAll name (snd e)) else e) (negs c)\<rparr>)
       name' zone' \<longleftrightarrow>
     negExists c name' zone' \<and> \<not> (name' = name \<and> zone' = zone)"
proof -
  define f :: "string \<times> string list \<Rightarrow> string \<times> string list"
    where "f = (\<lambda>e. if fst e = zone then (fst e, removeAll name (snd e)) else e)"
  have "fst (f e) = zone' \<and> name' \<in> set (snd (f e)) \<longleftrightarrow>
        (fst e = zone' \<and> name' \<in> set (snd e)) \<and> \<not> (name' = name \<and> zone' = zone)" for e
    by (auto simp: f_def)
  then have "(\<exists>e \<in> set (negs c). fst (f e) = zone' \<and> name' \<in> set (snd (f e))) \<longleftrightarrow>
        (\<exists>e \<in> set (negs c). fst e = zone' \<and> name' \<in> set (snd e)) \<and>
        \<not> (name' = name \<and> zone' = zone)"
    by blast
  moreover have "negExists (c\<lparr>negs := map f (negs c)\<rparr>) name' zone' \<longleftrightarrow>
        (\<exists>e \<in> set (negs c). fst (f e) = zone' \<and> name' \<in> set (snd (f e)))"
    by (simp add: negExists_def)
  ultimately show ?thesis
    unfolding negExists_def f_def by blast
qed

lemma ensureDelete_mono:
  "negExists (snd (ensureDeleteNetworkEndpointGroup c name zone)) name' zone' \<Longrightarrow>
   negExists c name' zone'"
  by (auto simp: ensureDeleteNetworkEndpointGroup_def GetNetworkEndpointGroup_def
      DeleteNetworkEndpointGroup_def split: if_splits)

lemma ensureDelete_success:
  assumes "fst (ensureDeleteNetworkEndpointGroup c name zone) = None"
    and "negExists c name zone \<longrightarrow> \<not> getFails c name zone"
  shows "\<not> negExists (snd (ensureDeleteNetworkEndpointGroup c name zone)) name zone"
  using assms
  by (auto simp: ensureDeleteNetworkEndpointGroup_def GetNetworkEndpointGroup_def
      DeleteNetworkEndpointGroup_def split: if_splits)

lemma deleteNames_faults:
  "getFails (snd (deleteNames zone names c)) = getFails c"
proof (induction names arbitrary: c)
  case Nil
  show ?case by simp
next
  case (Cons name names)
  show ?case
    using Cons.IH [of "snd (ensureDeleteNetworkEndpointGroup c name zone)"]
      ensureDelete_faults(1) [of c name zone]
    by (cases "ensureDeleteNetworkEndpointGroup c name zone")
       (auto split: option.splits)
qed

lemma deleteNames_mono:
  "negExists (snd (deleteNames zone names c)) name' zone' \<Longrightarrow> negExists c name' zone'"
proof (induction names arbitrary: c)
  case Nil
  then show ?case by simp
next
  case (Cons name names)
  show ?case
  proof (cases "ensureDeleteNetworkEndpointGroup c name zone")
    case (Pair r c1)
    have c1: "c1 = snd (ensureDeleteNetworkEndpointGroup c name zone)" using Pair by simp
    show ?thesis
    proof (cases r)
      case None
      with Pair Cons.prems have "negExists (snd (deleteNames zone names c1)) name' zone'" by simp
      then have "negExists c1 name' zone'" by (rule Cons.IH)
      then show ?thesis unfolding c1 by (rule ensureDelete_mono)
    next
      case (Some err)
      with Pair Cons.prems have "negExists c1 name' zone'" by simp
      then show ?thesis unfolding c1 by (rule ensureDelete_mono)
    qed
  qed
qed

lemma deleteNames_success:
  assumes "fst (deleteNames zone names c) = None"
    and "\<forall>name. negExists c name zone \<longrightarrow> \<not> getFails c name zone"
    and "name \<in> set names"
  shows "\<not> negExists (snd (deleteNames zone names c)) name zone"
  using assms
proof (induction names arbitrary: c)
  case Nil
  then show ?case by simp
next
  case (Cons x names)
  obtain r c1 where Pair: "ensureDeleteNetworkEndpointGroup c x zone = (r, c1)"
    by (cases "ensureDeleteNetworkEndpointGroup c x zone")
  have c1: "c1 = snd (ensureDeleteNetworkEndpointGroup c x zone)" using Pair by simp
  from Cons.prems(1) Pair have r: "r = None" by (cases r) simp_all
  with Cons.prems(1) Pair have rest: "fst (deleteNames zone names c1) = None" by simp
  have faults: "\<forall>name. negExists c1 name zone \<longrightarrow> \<not> getFails c1 name zone"
    unfolding c1 using Cons.prems(2) ensureDelete_mono [of c x zone]
    by (auto simp: ensureDelete_faults)
  have unfold: "snd (deleteNames zone (x # names) c) = snd (deleteNames zone names c1)"
    using Pair r by simp
  show ?case
  proof (cases "name \<in> set names")
    case True
    show ?thesis unfolding unfold by (rule Cons.IH [OF rest faults True])
  next
    case False
    with Cons.prems(3) have "name = x" by simp
    have "\<not> negExists c1 x zone"
      unfolding c1 using Pair r Cons.prems(2) by (intro ensureDelete_success) simp_all
    then have "\<not> negExists (snd (deleteNames zone names c1)) x zone"
      using deleteNames_mono by blast
    with \<open>name = x\<close> show ?thesis unfolding unfold by simp
  qed
qed

lemma deleteZones_faults:
  "getFails (snd (deleteZones zones names c)) = getFails c"
proof (induction zones arbitrary: c)
  case Nil
  show ?case by simp
next
  case (Cons zone zones)
  show ?case
    using Cons.IH [of "snd (deleteNames zone names c)"] deleteNames_faults [of zone names c]
    by (cases "deleteNames zone names c") (auto split: option.splits)
qed

lemma deleteZones_mono:
  "negExists (snd (deleteZones zones names c)) name' zone' \<Longrightarrow> negExists c name' zone'"
proof (induction zones arbitrary: c)
  case Nil
  then show ?case by simp
next
  case (Cons zone zones)
  obtain r c1 where Pair: "deleteNames zone names c = (r, c1)"
    by (cases "deleteNames zone names c")
  have c1: "c1 = snd (deleteNames zone names c)" using Pair by simp
  show ?case
  proof (cases r)
    case None
    with Pair Cons.prems have "negExists (snd (deleteZones zones names c1)) name' zone'" by simp
    then have "negExists c1 name' zone'" by (rule Cons.IH)
    then show ?thesis unfolding c1 by (rule deleteNames_mono)
  next
    case (Some err)
    with Pair Cons.prems have "negExists c1 name' zone'" by simp
    then show ?thesis unfolding c1 by (rule deleteNames_mono)
  qed
qed

lemma deleteZones_success:
  assumes "fst (deleteZones zones names c) = None"
    and "\<forall>name zone. negExists c name zone \<longrightarrow> \<not> getFails c name zone"
    and "zone \<in> set zones" and "name \<in> set names"
  shows "\<not> negExists (snd (deleteZones zones names c)) name zone"
  using assms
proof (induction zones arbitrary: c)
  case Nil
  then show ?case by simp
next
  case (Cons z zones)
  obtain r c1 where Pair: "deleteNames z names c = (r, c1)"
    by (cases "deleteNames z names c")
  have c1: "c1 = snd (deleteNames z names c)" using Pair by simp
  from Cons.prems(1) Pair have r: "r = None" by (cases r) simp_all
  with Cons.prems(1) Pair have rest: "fst (deleteZones zones names c1) = None" by simp
  have faults: "\<forall>name zone. negExists c1 name zone \<longrightarrow> \<not> getFails c1 name zone"
    unfolding c1 using Cons.prems(2) deleteNames_mono [of z names c]
    by (auto simp: deleteNames_faults)
  have unfold: "snd (deleteZones (z # zones) names c) = snd (deleteZones zones names c1)"
    using Pair r by simp
  show ?case
  proof (cases "zone \<in> set zones")
    case True
    show ?thesis unfolding unfold by (rule Cons.IH [OF rest faults True Cons.prems(4)])
  next
    case False
    with Cons.prems(3) have "zone = z" by simp
    have "fst (deleteNames z names c) = None" using Pair r by simp
    then have "\<not> negExists c1 name z"
      unfolding c1 using Cons.prems(2,4) by (intro deleteNames_success) simp_all
    then have "\<not> negExists (snd (deleteZones zones names c1)) name z"
      using deleteZones_mono by blast
    with \<open>zone = z\<close> show ?thesis unfolding unfold by simp
  qed
qed

lemma liveNames_iff:
  "name \<in> set (liveNames namer m) \<longleftrightarrow>
     (\<exists>key ports port targetPort. (key, ports) \<in> set (svcPortMap m) \<and>
        (port, targetPort) \<in> set ports \<and>
        name = NEG namer (sk_namespace key) (sk_name key) port)"
  unfolding liveNames_def by (auto simp: image_iff) force+

lemma set_orphanNames:
  "set (orphanNames namer m zoneNEGList) =
     {name. (\<exists>e \<in> set zoneNEGList. name \<in> set (snd e)) \<and> IsNEG namer name \<and>
            name \<notin> set (liveNames namer m)}"
  by (auto simp: orphanNames_def)

lemma garbageCollectNEG_no_orphans:
  assumes ok: "fst (garbageCollectNEG namer m c) = None"
    and faults: "\<forall>name zone. negExists c name zone \<longrightarrow> \<not> getFails c name zone"
    and ex: "negExists (snd (garbageCollectNEG namer m c)) name zone"
    and neg: "IsNEG namer name"
  shows "name \<in> set (liveNames namer m)"
proof (rule ccontr)
  assume not_live: "name \<notin> set (liveNames namer m)"
  let ?c1 = "c\<lparr>calls := calls c @ [CallAggregatedList]\<rparr>"
  let ?names = "orphanNames namer m (negs c)"
  have nofail: "\<not> listFails c"
    using ok by (auto simp: garbageCollectNEG_def AggregatedListNetworkEndpointGroup_def)
  then have eq: "garbageCollectNEG namer m c = deleteZones (map fst (negs c)) ?names ?c1"
    by (simp add: garbageCollectNEG_def AggregatedListNetworkEndpointGroup_def)
  from ex have "negExists ?c1 name zone"
    unfolding eq by (rule deleteZones_mono)
  then have in_c: "negExists c name zone" by simp
  then have zone: "zone \<in> set (map fst (negs c))"
    and name: "name \<in> set ?names"
    using neg not_live by (auto simp: negExists_def set_orphanNames)
  have "\<forall>name zone. negExists ?c1 name zone \<longrightarrow> \<not> getFails ?c1 name zone"
    using faults by simp
  moreover have "fst (deleteZones (map fst (negs c)) ?names ?c1) = None"
    using ok unfolding eq .
  ultimately have "\<not> negExists (snd (deleteZones (map fst (negs c)) ?names ?c1)) name zone"
    using zone name by (intro deleteZones_success) simp_all
  with ex show False unfolding eq by simp
qed

lemma garbageCollectSyncer_svcPortMap:
  "garbageCollectSyncer m key = Some m' \<Longrightarrow> svcPortMap m' = svcPortMap m"
  by (auto simp: garbageCollectSyncer_def split: option.splits if_splits)

lemma garbageCollectSyncers_svcPortMap:
  "garbageCollectSyncers keys m = Some m' \<Longrightarrow> svcPortMap m' = svcPortMap m"
proof (induction keys arbitrary: m)
  case Nil
  then show ?case by simp
next
  case (Cons key keys)
  then show ?case
    by (cases "garbageCollectSyncer m key")
       (auto dest: garbageCollectSyncer_svcPortMap)
qed

text \<open>
  Claim C2, as amended. If \<open>GC\<close> completes without error and no \<open>get\<close> of an existing NEG
  fails, then every cloud NEG whose name the namer recognises is named after a service
  and a service port of \<open>svcPortMap\<close>.
\<close>

theorem gc_deletes_orphans:
  assumes gc: "GC namer manager c = Some (None, manager', c')"
    and faults: "\<forall>name zone. negExists c name zone \<longrightarrow> \<not> getFails c name zone"
  shows "\<forall>name zone. negExists c' name zone \<and> IsNEG namer name \<longrightarrow>
           (\<exists>key ports port targetPort. (key, ports) \<in> set (svcPortMap manager) \<and>
              (port, targetPort) \<in> set ports \<and>
              name = NEG namer (sk_namespace key) (sk_name key) port)"
proof (intro allI impI)
  fix name zone
  assume a: "negExists c' name zone \<and> IsNEG namer name"
  from gc obtain m1 where m1: "garbageCollectSyncers (getAllStoppedSyncerKeys manager) manager = Some m1"
    by (auto simp: GC_def split: option.splits)
  then have same: "svcPortMap m1 = svcPortMap manager"
    by (rule garbageCollectSyncers_svcPortMap)
  from gc m1 have res: "garbageCollectNEG namer m1 c = (None, c')"
    by (cases "garbageCollectNEG namer m1 c") (auto simp: GC_def split: option.splits)
  have "name \<in> set (liveNames namer m1)"
    using a res by (intro garbageCollectNEG_no_orphans [OF _ faults, of namer m1 name zone]) simp_all
  then show "\<exists>key ports port targetPort. (key, ports) \<in> set (svcPortMap manager) \<and>
              (port, targetPort) \<in> set ports \<and>
              name = NEG namer (sk_namespace key) (sk_name key) port"
    unfolding liveNames_iff same .
qed

lemma deleteNames_first_failure:
  assumes "deleteNames zone namesDone c = (None, c1)"
    and "ensureDeleteNetworkEndpointGroup c1 name zone = (Some err, c2)"
  shows "deleteNames zone (namesDone @ name # namesRest) c =
           (Some (ErrWrap (''failed to delete NEG '' @ quoted name @ '' in '' @ quoted zone) err), c2)"
  using assms
proof (induction namesDone arbitrary: c)
  case Nil
  then show ?case by simp
next
  case (Cons x xs)
  obtain r c' where Pair: "ensureDeleteNetworkEndpointGroup c x zone = (r, c')"
    by (cases "ensureDeleteNetworkEndpointGroup c x zone")
  from Cons.prems(1) Pair have r: "r = None" by (cases r) simp_all
  with Cons.prems(1) Pair have "deleteNames zone xs c' = (None, c1)" by simp
  from Cons.IH [OF this Cons.prems(2)] Pair r show ?case by simp
qed

lemma deleteZones_first_failure:
  assumes "deleteZones zonesDone names c = (None, c1)"
    and "deleteNames zone names c1 = (Some err, c2)"
  shows "deleteZones (zonesDone @ zone # zonesRest) names c = (Some err, c2)"
  using assms
proof (induction zonesDone arbitrary: c)
  case Nil
  then show ?case by simp
next
  case (Cons z zs)
  obtain r c' where Pair: "deleteNames z names c = (r, c')"
    by (cases "deleteNames z names c")
  from Cons.prems(1) Pair have r: "r = None" by (cases r) simp_all
  with Cons.prems(1) Pair have "deleteZones zs names c' = (None, c1)" by simp
  from Cons.IH [OF this Cons.prems(2)] Pair r show ?case by simp
qed

lemma ensureDelete_failed:
  assumes "ensureDeleteNetworkEndpointGroup c name zone = (Some err, c')"
  shows "c' = c\<lparr>calls := calls c @ [CallGet name zone, CallDelete name zone]\<rparr> \<and>
         negExists c name zone \<and> deleteFails c name zone \<and> err = ErrCloud ''delete''"
  using assms
  by (auto simp: ensureDeleteNetworkEndpointGroup_def GetNetworkEndpointGroup_def
      DeleteNetworkEndpointGroup_def split: if_splits)

lemma deleteNames_deleted:
  assumes "fst (deleteNames zone names c) = None"
    and "name \<in> set names" and "\<not> getFails c name zone"
  shows "\<not> negExists (snd (deleteNames zone names c)) name zone"
  using assms
proof (induction names arbitrary: c)
  case Nil
  then show ?case by simp
next
  case (Cons x names)
  obtain r c1 where Pair: "ensureDeleteNetworkEndpointGroup c x zone = (r, c1)"
    by (cases "ensureDeleteNetworkEndpointGroup c x zone")
  have c1: "c1 = snd (ensureDeleteNetworkEndpointGroup c x zone)" using Pair by simp
  from Cons.prems(1) Pair have r: "r = None" by (cases r) simp_all
  with Cons.prems(1) Pair have rest: "fst (deleteNames zone names c1) = None" by simp
  have faults: "\<not> getFails c1 name zone"
    unfolding c1 using Cons.prems(3) by (simp add: ensureDelete_faults)
  have unfold: "snd (deleteNames zone (x # names) c) = snd (deleteNames zone names c1)"
    using Pair r by simp
  show ?case
  proof (cases "name \<in> set names")
    case True
    show ?thesis unfolding unfold by (rule Cons.IH [OF rest True faults])
  next
    case False
    with Cons.prems(2) have "name = x" by simp
    have "\<not> negExists c1 x zone"
      unfolding c1 using Pair r Cons.prems(3) \<open>name = x\<close>
      by (intro ensureDelete_success) simp_all
    then have "\<not> negExists (snd (deleteNames zone names c1)) x zone"
      using deleteNames_mono by blast
    with \<open>name = x\<close> show ?thesis unfolding unfold by simp
  qed
qed

lemma deleteZones_deleted:
  assumes "fst (deleteZones zones names c) = None"
    and "zone \<in> set zones" and "name \<in> set names" and "\<not> getFails c name zone"
  shows "\<not> negExists (snd (deleteZones zones names c)) name zone"
  using assms
proof (induction zones arbitrary: c)
  case Nil
  then show ?case by simp
next
  case (Cons z zones)
  obtain r c1 where Pair: "deleteNames z names c = (r, c1)"
    by (cases "deleteNames z names c")
  have c1: "c1 = snd (deleteNames z names c)" using Pair by simp
  from Cons.prems(1) Pair have r: "r = None" by (cases r) simp_all
  with Cons.prems(1) Pair have rest: "fst (deleteZones zones names c1) = None" by simp
  have faults: "\<not> getFails c1 name zone"
    unfolding c1 using Cons.prems(4) by (simp add: deleteNames_faults)
  have unfold: "snd (deleteZones (z # zones) names c) = snd (deleteZones zones names c1)"
    using Pair r by simp
  show ?case
  proof (cases "zone \<in> set zones")
    case True
    show ?thesis unfolding unfold by (rule Cons.IH [OF rest True Cons.prems(3) faults])
  next
    case False
    with Cons.prems(2) have "zone = z" by simp
    have "fst (deleteNames z names c) = None" using Pair r by simp
    then have "\<not> negExists c1 name z"
      unfolding c1 using Cons.prems(3,4) \<open>zone = z\<close> by (intro deleteNames_deleted) simp_all
    then have "\<not> negExists (snd (deleteZones zones names c1)) name z"
      using deleteZones_mono by blast
    with \<open>zone = z\<close> show ?thesis unfolding unfold by simp
  qed
qed

lemma orphanNames_sorted: "sorted (orphanNames namer m zoneNEGList) \<and>
    distinct (orphanNames namer m zoneNEGList)"
  by (simp add: orphanNames_def)

lemma orphanNames_svcPortMap:
  "svcPortMap m' = svcPortMap m \<Longrightarrow> orphanNames namer m' zl = orphanNames namer m zl"
  by (simp add: orphanNames_def liveNames_def)

text \<open>
  Claim C6, as amended. \<open>GC\<close> visits the orphan pairs zone by zone, in the order of the
  aggregated listing, and within a zone name by name, the orphan names sorted and without
  repetition. When, after the zones \<open>zonesDone\<close> and the names \<open>namesDone\<close> of the next zone
  went without error, the deletion of \<open>(name, zone)\<close> fails, \<open>GC\<close> returns that one failure,
  wrapped with the quoted name and zone, whatever names and zones remain. The cloud it
  leaves is the one of the failing deletion: its last two calls are the \<open>get\<close> and the
  \<open>delete\<close> of that pair, so the remaining pairs are not attempted. Of the pairs visited
  before, every one whose \<open>get\<close> did not fail is absent from the cloud, and no NEG has
  appeared.
\<close>

theorem gc_orphan_deletion_stops_at_first_failure:
  assumes stopped: "garbageCollectSyncers (getAllStoppedSyncerKeys manager) manager = Some manager'"
    and listed: "\<not> listFails c"
    and zones: "map fst (negs c) = zonesDone @ zone # zonesRest"
    and names: "orphanNames namer manager (negs c) = namesDone @ name # namesRest"
    and zonesOk: "deleteZones zonesDone (namesDone @ name # namesRest)
                    (c\<lparr>calls := calls c @ [CallAggregatedList]\<rparr>) = (None, c1)"
    and namesOk: "deleteNames zone namesDone c1 = (None, c2)"
    and fails: "ensureDeleteNetworkEndpointGroup c2 name zone = (Some err, c3)"
  shows "GC namer manager c =
           Some (Some (ErrWrap ''Failed to garbage collect negs''
                   (ErrWrap (''failed to delete NEG '' @ quoted name @ '' in '' @ quoted zone) err)),
                 manager', c3) \<and>
         sorted (namesDone @ name # namesRest) \<and> distinct (namesDone @ name # namesRest) \<and>
         c3 = c2\<lparr>calls := calls c2 @ [CallGet name zone, CallDelete name zone]\<rparr> \<and>
         (\<forall>n z. (z \<in> set zonesDone \<and> n \<in> set (namesDone @ name # namesRest) \<or>
                 z = zone \<and> n \<in> set namesDone) \<and> \<not> getFails c n z \<longrightarrow>
                \<not> negExists c3 n z) \<and>
         (\<forall>n z. negExists c3 n z \<longrightarrow> negExists c n z)"
proof -
  let ?c0 = "c\<lparr>calls := calls c @ [CallAggregatedList]\<rparr>"
  let ?names = "namesDone @ name # namesRest"
  have same: "svcPortMap manager' = svcPortMap manager"
    by (rule garbageCollectSyncers_svcPortMap [OF stopped])
  have names': "orphanNames namer manager' (negs c) = ?names"
    using names orphanNames_svcPortMap [OF same] by simp
  have dz: "deleteZones (zonesDone @ zone # zonesRest) ?names ?c0 =
      (Some (ErrWrap (''failed to delete NEG '' @ quoted name @ '' in '' @ quoted zone) err), c3)"
    by (rule deleteZones_first_failure [OF zonesOk deleteNames_first_failure [OF namesOk fails]])
  have neg: "garbageCollectNEG namer manager' c =
      (Some (ErrWrap (''failed to delete NEG '' @ quoted name @ '' in '' @ quoted zone) err), c3)"
    using listed dz
    by (simp add: garbageCollectNEG_def AggregatedListNetworkEndpointGroup_def zones names')
  have gc: "GC namer manager c =
      Some (Some (ErrWrap ''Failed to garbage collect negs''
              (ErrWrap (''failed to delete NEG '' @ quoted name @ '' in '' @ quoted zone) err)),
            manager', c3)"
    by (simp add: GC_def stopped neg)
  have order: "sorted ?names \<and> distinct ?names"
    using orphanNames_sorted [of namer manager "negs c"] unfolding names .
  have c3: "c3 = c2\<lparr>calls := calls c2 @ [CallGet name zone, CallDelete name zone]\<rparr>"
    using ensureDelete_failed [OF fails] by simp
  have c1: "c1 = snd (deleteZones zonesDone ?names ?c0)" using zonesOk by simp
  have c2: "c2 = snd (deleteNames zone namesDone c1)" using namesOk by simp
  have m32: "negExists c2 n z" if "negExists c3 n z" for n z
    using that unfolding c3 by simp
  have m21: "negExists c1 n z" if "negExists c2 n z" for n z
    using that unfolding c2 by (rule deleteNames_mono)
  have m10: "negExists c n z" if "negExists c1 n z" for n z
  proof -
    from that have "negExists ?c0 n z" unfolding c1 by (rule deleteZones_mono)
    then show ?thesis by simp
  qed
  have mono: "negExists c n z" if "negExists c3 n z" for n z
    using that m32 m21 m10 by blast
  have gone: "\<not> negExists c3 n z"
    if pair: "z \<in> set zonesDone \<and> n \<in> set ?names \<or> z = zone \<and> n \<in> set namesDone"
      and get: "\<not> getFails c n z" for n z
  proof -
    from pair show ?thesis
    proof
      assume a: "z \<in> set zonesDone \<and> n \<in> set ?names"
      have "\<not> negExists c1 n z"
        unfolding c1 using zonesOk a get by (intro deleteZones_deleted) simp_all
      with m32 m21 show ?thesis by blast
    next
      assume a: "z = zone \<and> n \<in> set namesDone"
      have "getFails c1 = getFails c"
        unfolding c1 by (simp add: deleteZones_faults)
      with get have "\<not> getFails c1 n z" by simp
      with a have "\<not> negExists c2 n zone"
        unfolding c2 using namesOk by (intro deleteNames_deleted) simp_all
      with a m32 show ?thesis by blast
    qed
  qed
  from gc order c3 gone mono show ?thesis by blast
qed

lemmas cloud_eval =
  GC_def garbageCollectNEG_def orphanNames_def liveNames_def getAllStoppedSyncerKeys_def
  garbageCollectSyncer_def AggregatedListNetworkEndpointGroup_def GetNetworkEndpointGroup_def
  DeleteNetworkEndpointGroup_def ensureDeleteNetworkEndpointGroup_def negExists_def
  exampleNamer_def IsStopped_def IsShuttingDown_def

lemma GC_exampleCloud:
  "GC exampleNamer managerFoo exampleCloud =
     Some (None, managerFoo,
       \<lparr>negs = [(''us-a'', [''k8s1-default-foo-80'', ''other'']), (''us-b'', [])],
        listFails = False, getFails = (\<lambda>name zone. False),
        deleteFails = (\<lambda>name zone. False),
        calls = [CallAggregatedList,
                 CallGet ''k8s1-default-old-80'' ''us-a'', CallDelete ''k8s1-default-old-80'' ''us-a'',
                 CallGet ''k8s1-default-old-80'' ''us-b'', CallDelete ''k8s1-default-old-80'' ''us-b'']\<rparr>)"
  by (simp add: managerFoo_eval exampleCloud_def cloud_eval)

text \<open>
  The theorem of C2 at \<open>managerFoo\<close> and the cloud without failures: the orphan of
  service \<open>default/old\<close> is gone after \<open>GC\<close>, the NEG of \<open>default/foo\<close> is still there.
\<close>

theorem gc_deletes_orphans_witness:
  "GC exampleNamer managerFoo exampleCloud =
     Some (None, managerFoo,
       exampleCloud\<lparr>negs := [(''us-a'', [''k8s1-default-foo-80'', ''other'']), (''us-b'', [])],
         calls := [CallAggregatedList,
                 CallGet ''k8s1-default-old-80'' ''us-a'', CallDelete ''k8s1-default-old-80'' ''us-a'',
                 CallGet ''k8s1-default-old-80'' ''us-b'', CallDelete ''k8s1-default-old-80'' ''us-b'']\<rparr>) \<and>
   \<not> getFails exampleCloud ''k8s1-default-old-80'' ''us-a'' \<and>
   negExists exampleCloud ''k8s1-default-old-80'' ''us-a'' \<and>
   IsNEG exampleNamer ''k8s1-default-old-80'' \<and>
   \<not> negExists
       (exampleCloud\<lparr>negs := [(''us-a'', [''k8s1-default-foo-80'', ''other'']), (''us-b'', [])],
         calls := [CallAggregatedList,
                 CallGet ''k8s1-default-old-80'' ''us-a'', CallDelete ''k8s1-default-old-80'' ''us-a'',
                 CallGet ''k8s1-default-old-80'' ''us-b'', CallDelete ''k8s1-default-old-80'' ''us-b'']\<rparr>)
       ''k8s1-default-old-80'' ''us-a''"
proof -
  let ?c' = "exampleCloud\<lparr>negs := [(''us-a'', [''k8s1-default-foo-80'', ''other'']), (''us-b'', [])],
         calls := [CallAggregatedList,
                 CallGet ''k8s1-default-old-80'' ''us-a'', CallDelete ''k8s1-default-old-80'' ''us-a'',
                 CallGet ''k8s1-default-old-80'' ''us-b'', CallDelete ''k8s1-default-old-80'' ''us-b'']\<rparr>"
  have gc: "GC exampleNamer managerFoo exampleCloud = Some (None, managerFoo, ?c')"
    by (simp add: GC_exampleCloud) (simp add: exampleCloud_def)
  have faults: "\<forall>name zone. negExists exampleCloud name zone \<longrightarrow> \<not> getFails exampleCloud name zone"
    by (simp add: exampleCloud_def)
  have neg: "IsNEG exampleNamer ''k8s1-default-old-80''"
    by (simp add: exampleNamer_def)
  have not_live: "\<not> (\<exists>key ports port targetPort. (key, ports) \<in> set (svcPortMap managerFoo) \<and>
      (port, targetPort) \<in> set ports \<and>
      ''k8s1-default-old-80'' = NEG exampleNamer (sk_namespace key) (sk_name key) port)"
    by (auto simp: managerFoo_eval exampleNamer_def)
  from gc_deletes_orphans [OF gc faults] neg not_live
  have gone: "\<not> negExists ?c' ''k8s1-default-old-80'' ''us-a''" by blast
  have before: "negExists exampleCloud ''k8s1-default-old-80'' ''us-a''"
    "\<not> getFails exampleCloud ''k8s1-default-old-80'' ''us-a''"
    by (simp_all add: exampleCloud_def negExists_def)
  from gc before neg gone show ?thesis by blast
qed

text \<open>
  Claim C2 as stated fails: with a transient failure of the \<open>get\<close> of the orphan in zone
  \<open>us-a\<close>, \<open>GC\<close> completes without error and the orphan, recognised by the namer and not
  live, is still in the cloud.
\<close>

theorem gc_deletes_orphans_counterexample:
  "GC exampleNamer managerFoo cloudGetFails =
     Some (None, managerFoo,
       cloudGetFails\<lparr>negs := [(''us-a'', [''k8s1-default-foo-80'', ''k8s1-default-old-80'', ''other'']),
                              (''us-b'', [])],
         calls := [CallAggregatedList,
                   CallGet ''k8s1-default-old-80'' ''us-a'',
                   CallGet ''k8s1-default-old-80'' ''us-b'', CallDelete ''k8s1-default-old-80'' ''us-b'']\<rparr>) \<and>
   negExists
     (cloudGetFails\<lparr>negs := [(''us-a'', [''k8s1-default-foo-80'', ''k8s1-default-old-80'', ''other'']),
                              (''us-b'', [])],
         calls := [CallAggregatedList,
                   CallGet ''k8s1-default-old-80'' ''us-a'',
                   CallGet ''k8s1-default-old-80'' ''us-b'', CallDelete ''k8s1-default-old-80'' ''us-b'']\<rparr>)
     ''k8s1-default-old-80'' ''us-a'' \<and>
   IsNEG exampleNamer ''k8s1-default-old-80'' \<and>
   ''k8s1-default-old-80'' \<notin> set (liveNames exampleNamer managerFoo)"
  by (simp add: managerFoo_eval cloudGetFails_def exampleCloud_def cloud_eval)

text \<open>
  The theorem of C5 for a zone that does not hold the NEG.
\<close>

theorem ensureDelete_absent_succeeds_witness:
  "\<not> negExists exampleCloud ''k8s1-default-old-80'' ''us-c'' \<and>
   ensureDeleteNetworkEndpointGroup exampleCloud ''k8s1-default-old-80'' ''us-c'' =
     (None, exampleCloud\<lparr>calls := [CallGet ''k8s1-default-old-80'' ''us-c'']\<rparr>)"
proof -
  have absent: "\<not> negExists exampleCloud ''k8s1-default-old-80'' ''us-c''"
    by (simp add: exampleCloud_def negExists_def)
  have "calls exampleCloud = []" by (simp add: exampleCloud_def)
  with ensureDelete_absent_succeeds [OF absent] absent show ?thesis by simp
qed

text \<open>
  The theorem of C9 for an orphan that exists and whose \<open>get\<close> fails transiently.
\<close>

theorem ensureDelete_swallows_get_errors_witness:
  "fst (GetNetworkEndpointGroup cloudGetFails ''k8s1-default-old-80'' ''us-a'') = Inl (ErrCloud ''get'') \<and>
   negExists cloudGetFails ''k8s1-default-old-80'' ''us-a'' \<and>
   ensureDeleteNetworkEndpointGroup cloudGetFails ''k8s1-default-old-80'' ''us-a'' =
     (None, cloudGetFails\<lparr>calls := [CallGet ''k8s1-default-old-80'' ''us-a'']\<rparr>) \<and>
   fst (deleteNames ''us-a'' [''k8s1-default-old-80''] cloudGetFails) = None"
proof -
  have get: "fst (GetNetworkEndpointGroup cloudGetFails ''k8s1-default-old-80'' ''us-a'') =
      Inl (ErrCloud ''get'')"
    by (simp add: cloudGetFails_def exampleCloud_def GetNetworkEndpointGroup_def)
  have exists: "negExists cloudGetFails ''k8s1-default-old-80'' ''us-a''"
    by (simp add: cloudGetFails_def exampleCloud_def negExists_def)
  have calls: "calls cloudGetFails = []" by (simp add: cloudGetFails_def exampleCloud_def)
  note T = ensureDelete_swallows_get_errors [OF get, of "[]"]
  from T calls have 1: "ensureDeleteNetworkEndpointGroup cloudGetFails ''k8s1-default-old-80'' ''us-a'' =
     (None, cloudGetFails\<lparr>calls := [CallGet ''k8s1-default-old-80'' ''us-a'']\<rparr>)"
    by simp
  from T have 2: "fst (deleteNames ''us-a'' [''k8s1-default-old-80''] cloudGetFails) = None"
    by simp
  from get exists 1 2 show ?thesis by blast
qed

lemma GC_cloudDeleteFails:
  "GC exampleNamer newSyncerManager cloudDeleteFails =
     Some (Some (ErrWrap ''Failed to garbage collect negs''
                  (ErrWrap (''failed to delete NEG '' @ quoted ''k8s1-default-old-443'' @ '' in '' @
                            quoted ''us-a'') (ErrCloud ''delete''))),
           newSyncerManager,
           cloudDeleteFails\<lparr>calls := [CallAggregatedList,
              CallGet ''k8s1-default-old-443'' ''us-a'', CallDelete ''k8s1-default-old-443'' ''us-a'']\<rparr>)"
  by (simp add: newSyncerManager_def cloudDeleteFails_def cloud_eval quoted_def)

text \<open>
  The theorem of C6 at \<open>managerFoo\<close> and a cloud with three orphans in three zones, where the
  deletion of \<open>k8s1-default-old-80\<close> fails in the second zone: the three orphans of the first
  zone and the first orphan of the second are deleted and stay so, \<open>GC\<close> returns the one
  failure, and the calls end with the failing \<open>delete\<close>: the third orphan of the second
  zone and the third zone are not visited.
\<close>

theorem gc_orphan_deletion_stops_at_first_failure_witness:
  "garbageCollectSyncers (getAllStoppedSyncerKeys managerFoo) managerFoo = Some managerFoo \<and>
   \<not> listFails cloudOneDeleteFails \<and>
   map fst (negs cloudOneDeleteFails) = [''us-a''] @ ''us-b'' # [''us-c''] \<and>
   orphanNames exampleNamer managerFoo (negs cloudOneDeleteFails) =
     [''k8s1-default-old-443''] @ ''k8s1-default-old-80'' # [''k8s1-default-old-8080''] \<and>
   GC exampleNamer managerFoo cloudOneDeleteFails =
     Some (Some (ErrWrap ''Failed to garbage collect negs''
                  (ErrWrap (''failed to delete NEG '' @ quoted ''k8s1-default-old-80'' @ '' in '' @
                            quoted ''us-b'') (ErrCloud ''delete''))),
           managerFoo,
           cloudOneDeleteFails
             \<lparr>negs := [(''us-a'', [''k8s1-default-foo-80'']),
                       (''us-b'', [''k8s1-default-old-80'', ''k8s1-default-old-8080'']),
                       (''us-c'', [''k8s1-default-old-80''])],
              calls := [CallAggregatedList,
                CallGet ''k8s1-default-old-443'' ''us-a'', CallDelete ''k8s1-default-old-443'' ''us-a'',
                CallGet ''k8s1-default-old-80'' ''us-a'', CallDelete ''k8s1-default-old-80'' ''us-a'',
                CallGet ''k8s1-default-old-8080'' ''us-a'', CallDelete ''k8s1-default-old-8080'' ''us-a'',
                CallGet ''k8s1-default-old-443'' ''us-b'', CallDelete ''k8s1-default-old-443'' ''us-b'',
                CallGet ''k8s1-default-old-80'' ''us-b'', CallDelete ''k8s1-default-old-80'' ''us-b'']\<rparr>) \<and>
   \<not> negExists (snd (snd (the (GC exampleNamer managerFoo cloudOneDeleteFails))))
       ''k8s1-default-old-8080'' ''us-a'' \<and>
   \<not> negExists (snd (snd (the (GC exampleNamer managerFoo cloudOneDeleteFails))))
       ''k8s1-default-old-443'' ''us-b''"
proof -
  let ?c = cloudOneDeleteFails
  let ?listed = "?c\<lparr>calls := calls ?c @ [CallAggregatedList]\<rparr>"
  let ?names = "[''k8s1-default-old-443''] @ ''k8s1-default-old-80'' # [''k8s1-default-old-8080'']"
  let ?ra = "deleteZones [''us-a''] ?names ?listed"
  let ?rb = "deleteNames ''us-b'' [''k8s1-default-old-443''] (snd ?ra)"
  let ?rc = "ensureDeleteNetworkEndpointGroup (snd ?rb) ''k8s1-default-old-80'' ''us-b''"
  let ?final = "cloudOneDeleteFails
             \<lparr>negs := [(''us-a'', [''k8s1-default-foo-80'']),
                       (''us-b'', [''k8s1-default-old-80'', ''k8s1-default-old-8080'']),
                       (''us-c'', [''k8s1-default-old-80''])],
              calls := [CallAggregatedList,
                CallGet ''k8s1-default-old-443'' ''us-a'', CallDelete ''k8s1-default-old-443'' ''us-a'',
                CallGet ''k8s1-default-old-80'' ''us-a'', CallDelete ''k8s1-default-old-80'' ''us-a'',
                CallGet ''k8s1-default-old-8080'' ''us-a'', CallDelete ''k8s1-default-old-8080'' ''us-a'',
                CallGet ''k8s1-default-old-443'' ''us-b'', CallDelete ''k8s1-default-old-443'' ''us-b'',
                CallGet ''k8s1-default-old-80'' ''us-b'', CallDelete ''k8s1-default-old-80'' ''us-b'']\<rparr>"
  have stopped: "garbageCollectSyncers (getAllStoppedSyncerKeys managerFoo) managerFoo = Some managerFoo"
    by (simp add: managerFoo_eval getAllStoppedSyncerKeys_def IsStopped_def)
  have listed: "\<not> listFails ?c" by (simp add: cloudOneDeleteFails_def)
  have zones: "map fst (negs ?c) = [''us-a''] @ ''us-b'' # [''us-c'']"
    by (simp add: cloudOneDeleteFails_def)
  have names: "orphanNames exampleNamer managerFoo (negs ?c) = ?names"
    by (simp add: managerFoo_eval cloudOneDeleteFails_def orphanNames_def liveNames_def
        exampleNamer_def)
  have "fst ?ra = None"
    by (simp add: cloudOneDeleteFails_def cloud_eval)
  then have zonesOk: "?ra = (None, snd ?ra)" by (metis prod.collapse)
  have "fst ?rb = None"
    by (simp add: cloudOneDeleteFails_def cloud_eval)
  then have namesOk: "?rb = (None, snd ?rb)" by (metis prod.collapse)
  have "fst ?rc = Some (ErrCloud ''delete'')"
    by (simp add: cloudOneDeleteFails_def cloud_eval)
  then have fails: "?rc = (Some (ErrCloud ''delete''), snd ?rc)" by (metis prod.collapse)
  have final: "snd ?rc = ?final"
    by (simp add: cloudOneDeleteFails_def cloud_eval)
  note T = gc_orphan_deletion_stops_at_first_failure
    [OF stopped listed zones names zonesOk namesOk fails]
  from T have gc: "GC exampleNamer managerFoo ?c =
     Some (Some (ErrWrap ''Failed to garbage collect negs''
                  (ErrWrap (''failed to delete NEG '' @ quoted ''k8s1-default-old-80'' @ '' in '' @
                            quoted ''us-b'') (ErrCloud ''delete''))),
           managerFoo, snd ?rc)"
    by blast
  have g1: "\<not> getFails ?c ''k8s1-default-old-8080'' ''us-a''"
    and g2: "\<not> getFails ?c ''k8s1-default-old-443'' ''us-b''"
    by (simp_all add: cloudOneDeleteFails_def)
  have p1: "''us-a'' \<in> set [''us-a''] \<and> ''k8s1-default-old-8080'' \<in> set ?names" by simp
  have p2: "''us-b'' = ''us-b'' \<and> ''k8s1-default-old-443'' \<in> set [''k8s1-default-old-443'']" by simp
  from T p1 g1 have d1: "\<not> negExists (snd ?rc) ''k8s1-default-old-8080'' ''us-a''" by blast
  from T p2 g2 have d2: "\<not> negExists (snd ?rc) ''k8s1-default-old-443'' ''us-b''" by blast
  have the: "snd (snd (the (GC exampleNamer managerFoo ?c))) = snd ?rc"
    by (simp only: gc option.sel snd_conv)
  from stopped listed zones names gc d1 d2 show ?thesis
    unfolding the unfolding final by blast
qed

text \<open>
  Claim C6 as stated fails: both orphans exist and the deletion of each would fail, and
  \<open>GC\<close> returns the failure of the first one only (the names are visited in sorted order)
  and makes no call for the second.
\<close>

theorem gc_orphan_deletion_stops_at_first_failure_counterexample:
  "deleteFails cloudDeleteFails ''k8s1-default-old-443'' ''us-a'' \<and>
   deleteFails cloudDeleteFails ''k8s1-default-old-80'' ''us-a'' \<and>
   negExists cloudDeleteFails ''k8s1-default-old-443'' ''us-a'' \<and>
   negExists cloudDeleteFails ''k8s1-default-old-80'' ''us-a'' \<and>
   orphanNames exampleNamer newSyncerManager (negs cloudDeleteFails) =
     [''k8s1-default-old-443'', ''k8s1-default-old-80''] \<and>
   GC exampleNamer newSyncerManager cloudDeleteFails =
     Some (Some (ErrWrap ''Failed to garbage collect negs''
                  (ErrWrap (''failed to delete NEG '' @ quoted ''k8s1-default-old-443'' @ '' in '' @
                            quoted ''us-a'') (ErrCloud ''delete''))),
           newSyncerManager,
           cloudDeleteFails\<lparr>calls := [CallAggregatedList,
              CallGet ''k8s1-default-old-443'' ''us-a'', CallDelete ''k8s1-default-old-443'' ''us-a'']\<rparr>)"
  by (simp add: GC_cloudDeleteFails)
     (simp add: newSyncerManager_def cloudDeleteFails_def cloud_eval)

section \<open>Claims about the syncer loop and the annotation parser\<close>

lemma runLoop_add: "runLoop mr f (a + b) s = runLoop mr f b (runLoop mr f a s)"
  by (induction a arbitrary: s) simp_all

lemma loopStep_blocked:
  "phase s = Idle \<Longrightarrow> \<not> dirty s \<Longrightarrow> \<not> shuttingDown s \<Longrightarrow> loopStep mr f s = s"
  by (simp add: loopStep_def)

lemma runLoop_blocked:
  "phase s = Idle \<Longrightarrow> \<not> dirty s \<Longrightarrow> \<not> shuttingDown s \<Longrightarrow> runLoop mr f n s = s"
  by (induction n) (simp_all add: loopStep_blocked)

lemma runLoop_failing:
  assumes "\<forall>i. f i"
  shows "phase s = Syncing \<Longrightarrow> \<not> shuttingDown s \<Longrightarrow> retryCount s + d = mr \<Longrightarrow>
     runLoop mr f (2 * d + 1) s =
       s\<lparr>phase := Idle, retryCount := mr + 1, syncCount := syncCount s + d + 1,
         fatalEvents := fatalEvents s + 1\<rparr>"
proof (induction d arbitrary: s)
  case 0
  with assms show ?case by (simp add: loopStep_def)
next
  case (Suc d)
  let ?s1 = "s\<lparr>phase := Backoff, retryCount := retryCount s + 1, syncCount := syncCount s + 1\<rparr>"
  let ?s2 = "?s1\<lparr>phase := Syncing\<rparr>"
  have 1: "loopStep mr f s = ?s1" using Suc.prems assms by (simp add: loopStep_def)
  have 2: "loopStep mr f ?s1 = ?s2" using Suc.prems by (simp add: loopStep_def)
  have eq: "2 * Suc d + 1 = Suc (Suc (2 * d + 1))" by simp
  have "runLoop mr f (2 * Suc d + 1) s = runLoop mr f (2 * d + 1) ?s2"
    by (simp only: eq runLoop.simps 1 2)
  also have "\<dots> = ?s2\<lparr>phase := Idle, retryCount := mr + 1, syncCount := syncCount ?s2 + d + 1,
         fatalEvents := fatalEvents ?s2 + 1\<rparr>"
    using Suc.prems by (intro Suc.IH) simp_all
  finally show ?case by simp
qed

text \<open>
  Claim C4. A Running syncer that starts a reconciliation with no retries counted, and
  whose every reconciliation fails, makes exactly \<open>maxRetries + 1\<close> attempts: from step
  \<open>2 * maxRetries + 1\<close> of its loop on, however long it runs without a poke, the count of
  attempts stays \<open>maxRetries + 1\<close>, the syncer is Running (neither stopped nor shutting
  down), its loop is blocked and one fatal failure is recorded. A \<open>Sync\<close> poke then
  leads to exactly one more attempt.
\<close>

theorem syncer_stops_retrying_after_maxRetries:
  assumes fails: "\<forall>i. syncFails i"
    and start: "phase s = Syncing" "isRunning s" "\<not> dirty s" "retryCount s = 0"
    and steps: "2 * maxRetries + 1 \<le> n"
  shows "syncCount (runLoop maxRetries syncFails n s) = syncCount s + maxRetries + 1 \<and>
         isRunning (runLoop maxRetries syncFails n s) \<and>
         phase (runLoop maxRetries syncFails n s) = Idle \<and>
         fatalEvents (runLoop maxRetries syncFails n s) = fatalEvents s + 1 \<and>
         (\<forall>k. 2 \<le> k \<longrightarrow>
            syncCount (runLoop maxRetries syncFails k (Sync (runLoop maxRetries syncFails n s))) =
              syncCount s + maxRetries + 2)"
proof -
  let ?t = "s\<lparr>phase := Idle, retryCount := maxRetries + 1, syncCount := syncCount s + maxRetries + 1,
         fatalEvents := fatalEvents s + 1\<rparr>"
  from start(2) have flags: "\<not> stopped s" "\<not> shuttingDown s" by (simp_all add: isRunning_def)
  have first: "runLoop maxRetries syncFails (2 * maxRetries + 1) s = ?t"
    using runLoop_failing [OF fails start(1) flags(2), of maxRetries maxRetries] start(4) by simp
  from steps have "n = (2 * maxRetries + 1) + (n - (2 * maxRetries + 1))" by simp
  then obtain m where n: "n = (2 * maxRetries + 1) + m" ..
  have "runLoop maxRetries syncFails ((2 * maxRetries + 1) + m) s =
        runLoop maxRetries syncFails m (runLoop maxRetries syncFails (2 * maxRetries + 1) s)"
    by (rule runLoop_add)
  then have "runLoop maxRetries syncFails n s = runLoop maxRetries syncFails m ?t"
    by (simp only: n first)
  also have "\<dots> = ?t"
    using start(3) flags(2) by (intro runLoop_blocked) simp_all
  finally have final: "runLoop maxRetries syncFails n s = ?t" .
  have poke: "syncCount (runLoop maxRetries syncFails k (Sync ?t)) = syncCount s + maxRetries + 2"
    if "2 \<le> k" for k
  proof -
    let ?v = "?t\<lparr>dirty := False, phase := Syncing\<rparr>"
    let ?u = "?v\<lparr>phase := Idle, retryCount := maxRetries + 2,
        syncCount := syncCount s + maxRetries + 2, fatalEvents := fatalEvents s + 2\<rparr>"
    from that have "k = 2 + (k - 2)" by simp
    then obtain j where k: "k = 2 + j" ..
    have "loopStep maxRetries syncFails (Sync ?t) = ?v"
      using flags by (simp add: loopStep_def Sync_def)
    moreover have "loopStep maxRetries syncFails ?v = ?u"
      using flags fails by (simp add: loopStep_def)
    ultimately have "runLoop maxRetries syncFails 2 (Sync ?t) = ?u"
      by (simp add: numeral_2_eq_2)
    moreover have "runLoop maxRetries syncFails (2 + j) (Sync ?t) =
        runLoop maxRetries syncFails j (runLoop maxRetries syncFails 2 (Sync ?t))"
      by (rule runLoop_add)
    ultimately have "runLoop maxRetries syncFails k (Sync ?t) = runLoop maxRetries syncFails j ?u"
      by (simp only: k)
    also have "\<dots> = ?u"
      using start(3) flags(2) by (intro runLoop_blocked) simp_all
    finally show ?thesis by simp
  qed
  from flags poke show ?thesis
    unfolding final by (simp add: isRunning_def)
qed

lemma startedSyncer_eval:
  "startedSyncer =
     \<lparr>syncerKey = ServicePort ''default'' ''foo'' 80 ''80'', negName = ''test-neg-name'',
      stopped = False, shuttingDown = False, dirty = False, phase = Syncing,
      retryCount = 0, syncCount = 0, fatalEvents = 0\<rparr>"
  by (simp add: startedSyncer_def Start_def newSyncer_def IsStopped_def IsShuttingDown_def)

text \<open>
  The theorem of C4 with \<open>maxRetries = 3\<close> at the started syncer of the test: 4 attempts
  after 7 steps and still 4 after 1000; after 6 steps only 3 have been made.
\<close>

theorem syncer_stops_retrying_after_maxRetries_witness:
  "phase startedSyncer = Syncing \<and> isRunning startedSyncer \<and> \<not> dirty startedSyncer \<and>
   retryCount startedSyncer = 0 \<and> syncCount startedSyncer = 0 \<and>
   syncCount (runLoop 3 (\<lambda>i. True) 7 startedSyncer) = 4 \<and>
   syncCount (runLoop 3 (\<lambda>i. True) 1000 startedSyncer) = 4 \<and>
   isRunning (runLoop 3 (\<lambda>i. True) 1000 startedSyncer) \<and>
   syncCount (runLoop 3 (\<lambda>i. True) 6 startedSyncer) = 3"
proof -
  have fails: "\<forall>i :: nat. (\<lambda>i. True) i" by simp
  have s: "phase startedSyncer = Syncing" "isRunning startedSyncer" "\<not> dirty startedSyncer"
    "retryCount startedSyncer = 0"
    by (simp_all add: startedSyncer_eval isRunning_def)
  have c0: "syncCount startedSyncer = 0" by (simp add: startedSyncer_eval)
  have n7: "2 * 3 + 1 \<le> (7 :: nat)" and n1000: "2 * 3 + 1 \<le> (1000 :: nat)" by simp_all
  from syncer_stops_retrying_after_maxRetries [OF fails s n7] c0
  have a: "syncCount (runLoop 3 (\<lambda>i. True) 7 startedSyncer) = 4" by simp
  from syncer_stops_retrying_after_maxRetries [OF fails s n1000] c0
  have b: "syncCount (runLoop 3 (\<lambda>i. True) 1000 startedSyncer) = 4"
    "isRunning (runLoop 3 (\<lambda>i. True) 1000 startedSyncer)" by simp_all
  have c: "syncCount (runLoop 3 (\<lambda>i. True) 6 startedSyncer) = 3"
    by (simp add: startedSyncer_eval eval_nat_numeral loopStep_def)
  from s c0 a b c show ?thesis by blast
qed

lemma verifyProtocols_flag_on:
  "\<forall>e \<in> set m. snd e = ''HTTP'' \<or> snd e = ''HTTPS'' \<or> snd e = ''HTTP2'' \<Longrightarrow>
   verifyProtocols True m = None"
  by (induction m) auto

lemma verifyProtocols_flag_off:
  "\<forall>e \<in> set m. snd e = ''HTTP'' \<or> snd e = ''HTTPS'' \<or> snd e = ''HTTP2'' \<Longrightarrow>
   \<exists>e \<in> set m. snd e = ''HTTP2'' \<Longrightarrow>
   verifyProtocols False m = Some UnsupportedProtocol"
  by (induction m) auto

text \<open>
  Claim C8, as amended. For a service whose application-protocol annotation decodes to
  a map with only the values HTTP, HTTPS and HTTP2 and with some port mapped to HTTP2:
  parsing fails with UnsupportedProtocol when the HTTP/2 flag is off, and returns the
  map, HTTP2 entry included, when the flag is on.
\<close>

theorem http2_requires_feature_flag:
  assumes "appProtocolsAnnotation svc = Some (PortProtocols portToProtos)"
    and "\<forall>e \<in> set portToProtos. snd e = ''HTTP'' \<or> snd e = ''HTTPS'' \<or> snd e = ''HTTP2''"
    and "\<exists>e \<in> set portToProtos. snd e = ''HTTP2''"
  shows "ApplicationProtocols False svc = Inl UnsupportedProtocol \<and>
         ApplicationProtocols True svc = Inr portToProtos"
  using assms(1) verifyProtocols_flag_on [OF assms(2)] verifyProtocols_flag_off [OF assms(2,3)]
  by (simp add: ApplicationProtocols_def)

text \<open>
  The theorem of C8 at the annotation \<open>{"443": "HTTP2"}\<close> of the test.
\<close>

theorem http2_requires_feature_flag_witness:
  "appProtocolsAnnotation http2Service = Some (PortProtocols [(''443'', ''HTTP2'')]) \<and>
   ApplicationProtocols False http2Service = Inl UnsupportedProtocol \<and>
   ApplicationProtocols True http2Service = Inr [(''443'', ''HTTP2'')]"
proof -
  have ann: "appProtocolsAnnotation http2Service = Some (PortProtocols [(''443'', ''HTTP2'')])"
    by (simp add: appProtocolsAnnotation_def http2Service_def)
  have valid: "\<forall>e \<in> set [(''443'', ''HTTP2'')]. snd e = ''HTTP'' \<or> snd e = ''HTTPS'' \<or> snd e = ''HTTP2''"
    by simp
  have some: "\<exists>e \<in> set [(''443'', ''HTTP2'')]. snd e = ''HTTP2''" by simp
  from http2_requires_feature_flag [OF ann valid some] ann show ?thesis by blast
qed

text \<open>
  Claim C8 as stated fails: the annotation \<open>{"22": "SSH", "443": "HTTP2"}\<close> maps a port
  to HTTP2, yet parsing does not succeed with the flag on, and with the flag off the
  error is not UnsupportedProtocol.
\<close>

theorem http2_requires_feature_flag_counterexample:
  "appProtocolsAnnotation mixedService = Some (PortProtocols [(''22'', ''SSH''), (''443'', ''HTTP2'')]) \<and>
   (''443'', ''HTTP2'') \<in> set [(''22'', ''SSH''), (''443'', ''HTTP2'')] \<and>
   ApplicationProtocols True mixedService = Inl AnnotationInvalid \<and>
   ApplicationProtocols False mixedService = Inl AnnotationInvalid"
  by (simp add: appProtocolsAnnotation_def mixedService_def ApplicationProtocols_def)

end
